theory Spec2Isabelle
  imports Main "HOL-Library.Word" "HOL-Library.AList" "HOL-Library.Sublist"
begin

unbundle bit_operations_syntax

section \<open>Join types, key types and key layouts\<close>

text \<open>
  The join operators of the Thrift enum \<^verbatim>\<open>TJoinOp\<close>, the primitive types of the
  engine, and the layout tags of \<^verbatim>\<open>JoinHashMapType\<close>. The three enumerations are
  declared outside the sources; they hold every name that \<^verbatim>\<open>join_hash_map.cpp\<close> uses,
  and the names it does not use all take the default branches of its switches.
\<close>

datatype TJoinOp =
    INNER_JOIN | LEFT_OUTER_JOIN | LEFT_SEMI_JOIN | LEFT_ANTI_JOIN
  | RIGHT_OUTER_JOIN | FULL_OUTER_JOIN | CROSS_JOIN | MERGE_JOIN
  | RIGHT_SEMI_JOIN | RIGHT_ANTI_JOIN | NULL_AWARE_LEFT_ANTI_JOIN

datatype PrimitiveType =
    INVALID_TYPE | TYPE_NULL | TYPE_BOOLEAN | TYPE_TINYINT | TYPE_SMALLINT | TYPE_INT
  | TYPE_BIGINT | TYPE_LARGEINT | TYPE_FLOAT | TYPE_DOUBLE | TYPE_VARCHAR | TYPE_DATE
  | TYPE_DATETIME | TYPE_BINARY | TYPE_DECIMAL | TYPE_CHAR | TYPE_STRUCT | TYPE_ARRAY
  | TYPE_MAP | TYPE_HLL | TYPE_DECIMALV2 | TYPE_TIME | TYPE_OBJECT | TYPE_PERCENTILE
  | TYPE_DECIMAL32 | TYPE_DECIMAL64 | TYPE_DECIMAL128 | TYPE_JSON

datatype JoinHashMapType =
    empty | keyboolean | key8 | key16 | key32 | key64 | key128 | keyfloat | keydouble
  | keystring | keydate | keydatetime | keydecimal | keydecimal32 | keydecimal64
  | keydecimal128 | slice | fixed32 | fixed64 | fixed128

record JoinKeyDesc =
  key_type :: PrimitiveType
  is_null_safe_equal :: bool

section \<open>Columns\<close>

text \<open>
  Modelled from the spec: the columnar value containers (\<^verbatim>\<open>column/*.h\<close>) are
  external collaborators. A column is either a plain vector of values or a nullable column:
  a data vector together with a vector of one-byte null indicators (non-zero means NULL).
\<close>

datatype 'a column = FixedColumn "'a list" | NullableColumn "'a list" "8 word list"

fun col_size :: "'a column \<Rightarrow> nat" where
  "col_size (FixedColumn xs) = length xs"
| "col_size (NullableColumn xs ns) = length xs"

fun is_nullable :: "'a column \<Rightarrow> bool" where
  "is_nullable (FixedColumn xs) = False"
| "is_nullable (NullableColumn xs ns) = True"

fun has_null :: "'a column \<Rightarrow> bool" where
  "has_null (FixedColumn xs) = False"
| "has_null (NullableColumn xs ns) = list_ex (\<lambda>n. n \<noteq> 0) ns"

fun data_column :: "'a column \<Rightarrow> 'a column" where
  "data_column (FixedColumn xs) = FixedColumn xs"
| "data_column (NullableColumn xs ns) = FixedColumn xs"

fun null_column :: "'a column \<Rightarrow> 8 word list" where
  "null_column (FixedColumn xs) = []"
| "null_column (NullableColumn xs ns) = ns"

section \<open>Key layout selection\<close>

text \<open>
  \<^verbatim>\<open>JoinHashTable::_get_size_of_fixed_and_contiguous_type\<close>. The byte sizes
  \<^verbatim>\<open>sizeof(RunTimeTypeTraits<T>::CppType)\<close> come from a header that is not part of
  the sources, so they are the parameter \<open>sz\<close>.
\<close>

fun get_size_of_fixed_and_contiguous_type :: "(PrimitiveType \<Rightarrow> nat) \<Rightarrow> PrimitiveType \<Rightarrow> nat" where
  "get_size_of_fixed_and_contiguous_type sz TYPE_BOOLEAN = sz TYPE_BOOLEAN"
| "get_size_of_fixed_and_contiguous_type sz TYPE_TINYINT = sz TYPE_TINYINT"
| "get_size_of_fixed_and_contiguous_type sz TYPE_SMALLINT = sz TYPE_SMALLINT"
| "get_size_of_fixed_and_contiguous_type sz TYPE_INT = sz TYPE_INT"
| "get_size_of_fixed_and_contiguous_type sz TYPE_BIGINT = sz TYPE_BIGINT"
| "get_size_of_fixed_and_contiguous_type sz TYPE_FLOAT = sz TYPE_FLOAT"
| "get_size_of_fixed_and_contiguous_type sz TYPE_DOUBLE = sz TYPE_DOUBLE"
| "get_size_of_fixed_and_contiguous_type sz TYPE_DATE = sz TYPE_DATE"
| "get_size_of_fixed_and_contiguous_type sz TYPE_DATETIME = sz TYPE_DATETIME"
| "get_size_of_fixed_and_contiguous_type sz _ = 0"

text \<open>
  The sizes of the C++ value types on the 64-bit targets the engine is built for:
  \<^verbatim>\<open>uint8_t\<close>, \<^verbatim>\<open>int8_t\<close>, \<^verbatim>\<open>int16_t\<close>, \<^verbatim>\<open>int32_t\<close>, \<^verbatim>\<open>int64_t\<close>,
  \<^verbatim>\<open>float\<close>, \<^verbatim>\<open>double\<close>, a 32-bit date and a 64-bit timestamp. Used for concrete
  evaluations only.
\<close>

fun cpp_sizeof :: "PrimitiveType \<Rightarrow> nat" where
  "cpp_sizeof TYPE_BOOLEAN = 1"
| "cpp_sizeof TYPE_TINYINT = 1"
| "cpp_sizeof TYPE_SMALLINT = 2"
| "cpp_sizeof TYPE_INT = 4"
| "cpp_sizeof TYPE_BIGINT = 8"
| "cpp_sizeof TYPE_FLOAT = 4"
| "cpp_sizeof TYPE_DOUBLE = 8"
| "cpp_sizeof TYPE_DATE = 4"
| "cpp_sizeof TYPE_DATETIME = 8"
| "cpp_sizeof _ = 16"

text \<open>
  The first loop of \<^verbatim>\<open>_choose_join_hash_map\<close>: a key whose build column holds no
  NULL loses its \<open>is_null_safe_equal\<close> flag.
\<close>

definition drop_null_safe :: "JoinKeyDesc list \<Rightarrow> 'a column list \<Rightarrow> JoinKeyDesc list" where
  "drop_null_safe keys cols =
     map (\<lambda>i. if \<not> has_null (cols ! i) then (keys ! i)\<lparr>is_null_safe_equal := False\<rparr> else keys ! i)
       [0..<length keys]"

text \<open>The switch on the type of a single key that is not null-safe.\<close>

fun single_key_layout :: "PrimitiveType \<Rightarrow> JoinHashMapType" where
  "single_key_layout TYPE_BOOLEAN = keyboolean"
| "single_key_layout TYPE_TINYINT = key8"
| "single_key_layout TYPE_SMALLINT = key16"
| "single_key_layout TYPE_INT = key32"
| "single_key_layout TYPE_BIGINT = key64"
| "single_key_layout TYPE_LARGEINT = key128"
| "single_key_layout TYPE_FLOAT = keyfloat"
| "single_key_layout TYPE_DOUBLE = keydouble"
| "single_key_layout TYPE_VARCHAR = keystring"
| "single_key_layout TYPE_CHAR = keystring"
| "single_key_layout TYPE_DATE = keydate"
| "single_key_layout TYPE_DATETIME = keydatetime"
| "single_key_layout TYPE_DECIMALV2 = keydecimal"
| "single_key_layout TYPE_DECIMAL32 = keydecimal32"
| "single_key_layout TYPE_DECIMAL64 = keydecimal64"
| "single_key_layout TYPE_DECIMAL128 = keydecimal128"
| "single_key_layout _ = slice"

text \<open>
  The loop that adds up \<^verbatim>\<open>total_size_in_byte\<close>. It leaves the function with
  \<open>slice\<close> at the first key whose type has size 0: that early return is \<open>None\<close>.
\<close>

fun total_size_in_byte :: "(PrimitiveType \<Rightarrow> nat) \<Rightarrow> JoinKeyDesc list \<Rightarrow> nat \<Rightarrow> nat option" where
  "total_size_in_byte sz [] tot = Some tot"
| "total_size_in_byte sz (join_key # rest) tot =
     (let total1 = (if is_null_safe_equal join_key then tot + 1 else tot);
          s = get_size_of_fixed_and_contiguous_type sz (key_type join_key)
      in if s > 0 then total_size_in_byte sz rest (total1 + s) else None)"

text \<open>
  \<^verbatim>\<open>JoinHashTable::_choose_join_hash_map\<close>. It returns the layout and the join keys
  with the flags it has dropped (the source updates them in place).
\<close>

definition choose_join_hash_map ::
    "(PrimitiveType \<Rightarrow> nat) \<Rightarrow> JoinKeyDesc list \<Rightarrow> 'a column list \<Rightarrow> JoinHashMapType \<times> JoinKeyDesc list" where
  "choose_join_hash_map sz join_keys key_columns =
     (let keys = drop_null_safe join_keys key_columns in
      if length keys = 1 \<and> \<not> is_null_safe_equal (keys ! 0)
      then (single_key_layout (key_type (keys ! 0)), keys)
      else (case total_size_in_byte sz keys 0 of
              None \<Rightarrow> (slice, keys)
            | Some tot \<Rightarrow>
                if tot \<le> 4 then (fixed32, keys)
                else if tot \<le> 8 then (fixed64, keys)
                else if tot \<le> 16 then (fixed128, keys)
                else (slice, keys)))"

section \<open>Descriptors\<close>

text \<open>
  The parts of \<^verbatim>\<open>runtime/descriptors.h\<close> the hash table reads: a slot has an id, a
  type and a nullability; a tuple descriptor has an id and its slots; a row descriptor lists
  its tuple descriptors.
\<close>

type_synonym SlotId = nat
type_synonym TupleId = nat

record SlotDescriptor =
  slot_id :: SlotId
  slot_type :: PrimitiveType
  slot_is_nullable :: bool

record TupleDescriptor =
  tuple_id :: TupleId
  slots :: "SlotDescriptor list"

record RowDescriptor =
  tuple_descriptors :: "TupleDescriptor list"

text \<open>
  Modelled from the spec: \<^verbatim>\<open>RowDescriptor::get_tuple_idx\<close> is defined in
  \<^verbatim>\<open>descriptors.cpp\<close>, which is not among the sources. Its declaration says that it
  returns \<^verbatim>\<open>INVALID_IDX\<close> if the id is not part of the row; \<open>None\<close> stands for
  \<^verbatim>\<open>INVALID_IDX\<close>.
\<close>

definition get_tuple_idx :: "RowDescriptor \<Rightarrow> TupleId \<Rightarrow> nat option" where
  "get_tuple_idx rd tid =
     (case filter (\<lambda>i. tuple_id (tuple_descriptors rd ! i) = tid) [0..<length (tuple_descriptors rd)] of
        [] \<Rightarrow> None
      | i # rest \<Rightarrow> Some (last (i # rest)))"

section \<open>Chunks\<close>

text \<open>
  Modelled from the spec: \<^verbatim>\<open>Chunk\<close> (\<^verbatim>\<open>column/chunk.h\<close>) is an external
  collaborator. A chunk holds its slot columns in order, a map from slot ids to positions, and
  the tuple marker columns (boolean columns of existence flags) by tuple id. Reading a slot or
  tuple id that the chunk does not hold is undefined in the source; the theorems below assume
  chunks that hold what is read.
\<close>

record 'a Chunk =
  columns :: "'a column list"
  slot_id_to_index :: "(SlotId \<times> nat) list"
  tuple_columns :: "(TupleId \<times> 8 word column) list"

definition empty_chunk :: "'a Chunk" where
  "empty_chunk = \<lparr>columns = [], slot_id_to_index = [], tuple_columns = []\<rparr>"

definition num_rows :: "'a Chunk \<Rightarrow> nat" where
  "num_rows chunk = (case columns chunk of [] \<Rightarrow> 0 | c # cs \<Rightarrow> col_size c)"

definition append_column :: "'a Chunk \<Rightarrow> 'a column \<Rightarrow> SlotId \<Rightarrow> 'a Chunk" where
  "append_column chunk column sid =
     chunk\<lparr>slot_id_to_index := AList.update sid (length (columns chunk)) (slot_id_to_index chunk),
           columns := columns chunk @ [column]\<rparr>"

definition get_column_by_slot_id :: "'a Chunk \<Rightarrow> SlotId \<Rightarrow> 'a column" where
  "get_column_by_slot_id chunk sid = columns chunk ! the (map_of (slot_id_to_index chunk) sid)"

definition is_tuple_exist :: "'a Chunk \<Rightarrow> TupleId \<Rightarrow> bool" where
  "is_tuple_exist chunk tid = (map_of (tuple_columns chunk) tid \<noteq> None)"

definition get_tuple_column_by_id :: "'a Chunk \<Rightarrow> TupleId \<Rightarrow> 8 word column" where
  "get_tuple_column_by_id chunk tid = the (map_of (tuple_columns chunk) tid)"

definition append_tuple_column :: "'a Chunk \<Rightarrow> 8 word column \<Rightarrow> TupleId \<Rightarrow> 'a Chunk" where
  "append_tuple_column chunk column tid =
     chunk\<lparr>tuple_columns := AList.update tid column (tuple_columns chunk)\<rparr>"

text \<open>
  Modelled from the spec: \<^verbatim>\<open>Column::append(src, 0, count)\<close> extends a column with the
  first \<open>count\<close> rows of \<open>src\<close>. A nullable column that receives a plain column marks
  the new rows as not NULL. \<^verbatim>\<open>append_chunk\<close> never appends a nullable column to a plain
  one (it widens the destination first).
\<close>

fun col_append :: "'a column \<Rightarrow> 'a column \<Rightarrow> nat \<Rightarrow> 'a column" where
  "col_append (FixedColumn xs) (FixedColumn ys) n = FixedColumn (xs @ take n ys)"
| "col_append (NullableColumn xs ns) (NullableColumn ys ms) n =
     NullableColumn (xs @ take n ys) (ns @ take n ms)"
| "col_append (NullableColumn xs ns) (FixedColumn ys) n =
     NullableColumn (xs @ take n ys) (ns @ replicate n 0)"
| "col_append (FixedColumn xs) (NullableColumn ys ms) n = FixedColumn (xs @ take n ys)"

text \<open>
  Modelled from the spec: \<^verbatim>\<open>NullableColumn::create(data, nulls)\<close> wraps a plain data
  column and a null-indicator column into a nullable column.
\<close>

fun nullable_create :: "'a column \<Rightarrow> 8 word list \<Rightarrow> 'a column" where
  "nullable_create (FixedColumn xs) ns = NullableColumn xs ns"
| "nullable_create (NullableColumn xs ms) ns = NullableColumn xs ns"

section \<open>The state of the hash table\<close>

record HashTableSlotDescriptor =
  slot :: SlotDescriptor
  need_output :: bool

text \<open>
  \<^verbatim>\<open>HashTableParam\<close>, without the profiling timers, which no modelled function reads.
\<close>

record HashTableParam =
  param_need_create_tuple_columns :: bool
  param_with_other_conjunct :: bool
  param_join_type :: TJoinOp
  param_row_desc :: RowDescriptor
  build_row_desc :: RowDescriptor
  probe_row_desc :: RowDescriptor
  output_slots :: "SlotId list"
  predicate_slots :: "SlotId list"
  param_join_keys :: "JoinKeyDesc list"

text \<open>
  \<^verbatim>\<open>JoinHashTableItems\<close>. Row indices, bucket numbers and counters are natural
  numbers; \<open>row_count\<close> is a \<^verbatim>\<open>uint32_t\<close> in the source, and the places where its
  arithmetic can wrap are written with \<open>mod 2 ^ 32\<close>. A serialized key (\<^verbatim>\<open>Slice\<close>) is
  the list of its bytes.
\<close>

record 'a JoinHashTableItems =
  build_chunk :: "'a Chunk"
  key_columns :: "'a column list"
  build_slots :: "HashTableSlotDescriptor list"
  probe_slots :: "HashTableSlotDescriptor list"
  output_build_tuple_ids :: "TupleId list"
  output_probe_tuple_ids :: "TupleId list"
  row_desc :: RowDescriptor
  first :: "nat list"
  "next" :: "nat list"
  build_slice :: "8 word list list"
  bucket_size :: nat
  row_count :: nat
  build_column_count :: nat
  probe_column_count :: nat
  with_other_conjunct :: bool
  need_create_tuple_columns :: bool
  left_to_nullable :: bool
  right_to_nullable :: bool
  join_type :: TJoinOp
  join_keys :: "JoinKeyDesc list"

text \<open>
  \<^verbatim>\<open>HashTableProbeState\<close>: the scratch arrays of one probe unit. The chain cursor
  \<^verbatim>\<open>next\<close> of the probe state is \<open>probe_next\<close> here, and its key columns are
  \<open>probe_key_columns\<close>. The match counters are natural numbers: the source only
  decrements a counter that it has found to be non-zero.
\<close>

record 'a HashTableProbeState =
  build_index :: "nat list"
  probe_index :: "nat list"
  build_match_index :: "nat list"
  probe_match_index :: "nat list"
  probe_next :: "nat list"
  buckets :: "nat list"
  is_nulls :: "8 word list"
  probe_slice :: "8 word list list"
  probe_row_count :: nat
  probe_key_columns :: "'a column list"

record 'a JoinHashTable =
  hash_map_type :: JoinHashMapType
  ht_need_create_tuple_columns :: bool
  table_items :: "'a JoinHashTableItems"
  probe_state :: "'a HashTableProbeState"

text \<open>
  Modelled from the spec: the structs are declared in \<^verbatim>\<open>join_hash_map.h\<close>, which is
  not among the sources. A freshly made \<^verbatim>\<open>JoinHashTableItems\<close> or
  \<^verbatim>\<open>HashTableProbeState\<close> has empty vectors, zero counters and false flags; the join
  type and the descriptors are set by \<^verbatim>\<open>create\<close> before anything reads them.
\<close>

definition new_table_items :: "HashTableParam \<Rightarrow> 'a JoinHashTableItems" where
  "new_table_items param =
     \<lparr>build_chunk = empty_chunk, key_columns = [], build_slots = [], probe_slots = [],
      output_build_tuple_ids = [], output_probe_tuple_ids = [], row_desc = param_row_desc param,
      first = [], next = [], build_slice = [], bucket_size = 0, row_count = 0,
      build_column_count = 0, probe_column_count = 0, with_other_conjunct = False,
      need_create_tuple_columns = True, left_to_nullable = False, right_to_nullable = False,
      join_type = param_join_type param, join_keys = []\<rparr>"

definition new_probe_state :: "'a HashTableProbeState" where
  "new_probe_state =
     \<lparr>build_index = [], probe_index = [], build_match_index = [], probe_match_index = [],
      probe_next = [], buckets = [], is_nulls = [], probe_slice = [], probe_row_count = 0,
      probe_key_columns = []\<rparr>"

section \<open>Creating the table\<close>

text \<open>The test that decides \<^verbatim>\<open>need_output\<close> of a slot, the same for both sides.\<close>

definition slot_need_output :: "HashTableParam \<Rightarrow> SlotDescriptor \<Rightarrow> bool" where
  "slot_need_output param s =
     (if output_slots param = [] \<or> slot_id s \<in> set (output_slots param)
          \<or> slot_id s \<in> set (predicate_slots param)
      then True else False)"

text \<open>Lines 249 to 260 of \<^verbatim>\<open>create\<close>: the nullability-promotion flags.\<close>

definition set_to_nullable :: "'a JoinHashTableItems \<Rightarrow> 'a JoinHashTableItems" where
  "set_to_nullable items =
     (if join_type items = RIGHT_SEMI_JOIN \<or> join_type items = RIGHT_ANTI_JOIN
          \<or> join_type items = RIGHT_OUTER_JOIN
      then items\<lparr>left_to_nullable := True\<rparr>
      else if join_type items = LEFT_SEMI_JOIN \<or> join_type items = LEFT_ANTI_JOIN
          \<or> join_type items = NULL_AWARE_LEFT_ANTI_JOIN \<or> join_type items = LEFT_OUTER_JOIN
      then items\<lparr>right_to_nullable := True\<rparr>
      else if join_type items = FULL_OUTER_JOIN
      then items\<lparr>left_to_nullable := True, right_to_nullable := True\<rparr>
      else items)"

text \<open>The body of the loops over the probe tuples and their slots.\<close>

definition create_probe_slot ::
    "HashTableParam \<Rightarrow> SlotDescriptor \<Rightarrow> 'a JoinHashTableItems \<Rightarrow> 'a JoinHashTableItems" where
  "create_probe_slot param s items =
     items\<lparr>probe_slots := probe_slots items @ [\<lparr>slot = s, need_output = slot_need_output param s\<rparr>],
           probe_column_count := probe_column_count items + 1\<rparr>"

definition create_probe_tuple ::
    "HashTableParam \<Rightarrow> TupleDescriptor \<Rightarrow> 'a JoinHashTableItems \<Rightarrow> 'a JoinHashTableItems" where
  "create_probe_tuple param tuple_desc items =
     (let items1 = fold (create_probe_slot param) (slots tuple_desc) items in
      if get_tuple_idx (row_desc items1) (tuple_id tuple_desc) \<noteq> None
      then items1\<lparr>output_probe_tuple_ids := output_probe_tuple_ids items1 @ [tuple_id tuple_desc]\<rparr>
      else items1)"

text \<open>
  The body of the loops over the build tuples and their slots. Every build column is created
  with one default row, so that row index 0 is never a real row. \<open>dflt\<close> is the default
  value of the column's type.
\<close>

definition create_build_slot ::
    "'a \<Rightarrow> HashTableParam \<Rightarrow> SlotDescriptor \<Rightarrow> 'a JoinHashTableItems \<Rightarrow> 'a JoinHashTableItems" where
  "create_build_slot dflt param s items =
     (let column = (if slot_is_nullable s then NullableColumn [dflt] [0] else FixedColumn [dflt])
      in items\<lparr>build_slots := build_slots items @ [\<lparr>slot = s, need_output = slot_need_output param s\<rparr>],
               build_chunk := append_column (build_chunk items) column (slot_id s),
               build_column_count := build_column_count items + 1\<rparr>)"

definition create_build_tuple ::
    "'a \<Rightarrow> HashTableParam \<Rightarrow> TupleDescriptor \<Rightarrow> 'a JoinHashTableItems \<Rightarrow> 'a JoinHashTableItems" where
  "create_build_tuple dflt param tuple_desc items =
     (let items1 = fold (create_build_slot dflt param) (slots tuple_desc) items in
      if get_tuple_idx (row_desc items1) (tuple_id tuple_desc) \<noteq> None
      then items1\<lparr>output_build_tuple_ids := output_build_tuple_ids items1 @ [tuple_id tuple_desc]\<rparr>
      else items1)"

text \<open>\<^verbatim>\<open>JoinHashTable::create\<close>. The layout tag of a new table is \<open>empty\<close>.\<close>

definition create :: "'a \<Rightarrow> HashTableParam \<Rightarrow> 'a JoinHashTable" where
  "create dflt param =
     (let items0 = (new_table_items param)
            \<lparr>row_count := 0, bucket_size := 0,
             need_create_tuple_columns := param_need_create_tuple_columns param,
             build_chunk := empty_chunk,
             with_other_conjunct := param_with_other_conjunct param,
             join_type := param_join_type param,
             row_desc := param_row_desc param\<rparr>;
          items1 = set_to_nullable items0;
          items2 = items1\<lparr>join_keys := param_join_keys param\<rparr>;
          items3 = fold (create_probe_tuple param) (tuple_descriptors (probe_row_desc param)) items2;
          items4 = fold (create_build_tuple dflt param) (tuple_descriptors (build_row_desc param)) items3
      in \<lparr>hash_map_type = empty,
          ht_need_create_tuple_columns = param_need_create_tuple_columns param,
          table_items = items4,
          probe_state = new_probe_state\<rparr>)"

section \<open>Appending build batches\<close>

text \<open>
  The first loop of \<^verbatim>\<open>JoinHashTable::append_chunk\<close>, at column \<open>i\<close>: the build
  column receives the rows of the batch's column for the same slot, after being widened to a
  nullable column if the batch's column is nullable and it is not.
\<close>

definition append_build_column ::
    "'a JoinHashTableItems \<Rightarrow> 'a Chunk \<Rightarrow> nat \<Rightarrow> 'a column list \<Rightarrow> 'a column list" where
  "append_build_column items chunk i cols =
     (let column = get_column_by_slot_id chunk (slot_id (slot (build_slots items ! i))) in
      if is_nullable (cols ! i)
      then cols[i := col_append (cols ! i) column (num_rows chunk)]
      else if is_nullable column
      then cols[i := col_append (nullable_create (cols ! i) (replicate (col_size (cols ! i)) 0))
                         column (num_rows chunk)]
      else cols[i := col_append (cols ! i) column (num_rows chunk)])"

text \<open>
  The loop over the tuple marker columns of the batch, at one entry of its tuple map. A marker
  column the build chunk does not have yet starts as \<open>row_count + 1\<close> flags of value 1.
\<close>

definition append_tuple_entry ::
    "'a Chunk \<Rightarrow> TupleId \<Rightarrow> 'a JoinHashTableItems \<Rightarrow> 'a JoinHashTableItems" where
  "append_tuple_entry chunk tid items =
     (if get_tuple_idx (row_desc items) tid \<noteq> None
      then (if is_tuple_exist (build_chunk items) tid
            then (let src_column = get_tuple_column_by_id chunk tid;
                      dest_column = get_tuple_column_by_id (build_chunk items) tid
                  in items\<lparr>build_chunk := append_tuple_column (build_chunk items)
                        (col_append dest_column src_column (col_size src_column)) tid\<rparr>)
            else (let src_column = get_tuple_column_by_id chunk tid;
                      dest_column = FixedColumn (replicate ((row_count items + 1) mod 2 ^ 32) 1)
                  in items\<lparr>build_chunk := append_tuple_column (build_chunk items)
                        (col_append dest_column src_column (col_size src_column)) tid\<rparr>))
      else items)"

text \<open>
  \<^verbatim>\<open>JoinHashTable::append_chunk\<close>. It always returns \<^verbatim>\<open>Status::OK\<close>, so the model
  returns the new table only. The local \<^verbatim>\<open>chunk_memory_size\<close> is computed and never
  used, and is left out.
\<close>

definition append_chunk :: "'a JoinHashTable \<Rightarrow> 'a Chunk \<Rightarrow> 'a JoinHashTable" where
  "append_chunk ht chunk =
     (let items = table_items ht;
          cols = fold (append_build_column items chunk) [0..<build_column_count items]
                   (columns (build_chunk items));
          items1 = items\<lparr>build_chunk := (build_chunk items)\<lparr>columns := cols\<rparr>\<rparr>;
          items2 = (if ht_need_create_tuple_columns ht
                    then fold (append_tuple_entry chunk) (map fst (tuple_columns chunk)) items1
                    else items1)
      in ht\<lparr>table_items := items2\<lparr>row_count := (row_count items2 + num_rows chunk) mod 2 ^ 32\<rparr>\<rparr>)"

section \<open>Collaborators of the build and probe routines\<close>

datatype Status = OK | MemoryAllocFailed | InternalError | NotSupported

text \<open>
  The helpers that \<^verbatim>\<open>join_hash_map.cpp\<close> calls and that are declared in headers
  outside the sources are parameters of the model, collected in one record:
  \<^item> \<open>cpp_size\<close>: \<^verbatim>\<open>sizeof(RunTimeTypeTraits<T>::CppType)\<close>;
  \<^item> \<open>calc_bucket_size\<close>, \<open>calc_bucket_num\<close>, \<open>get_hash_key\<close> and
    \<open>prepare_map_index\<close> of \<^verbatim>\<open>JoinHashMapHelper\<close>;
  \<^item> \<open>max_serialized_size\<close> of \<^verbatim>\<open>serde::ColumnArraySerde\<close>;
  \<^item> \<open>allocate\<close>: whether \<^verbatim>\<open>MemPool::allocate\<close> returns memory for a request of
    that many bytes;
  \<^item> \<open>encode_key\<close>: the key of a row in a typed or packed layout (the typed value or
    the packed fixed-size word, as the bytes that the layout hashes).
\<close>

record 'a collab =
  cpp_size :: "PrimitiveType \<Rightarrow> nat"
  calc_bucket_size :: "nat \<Rightarrow> nat"
  calc_bucket_num :: "8 word list \<Rightarrow> nat \<Rightarrow> nat"
  get_hash_key :: "'a column list \<Rightarrow> nat \<Rightarrow> 8 word list"
  max_serialized_size :: "'a column \<Rightarrow> nat"
  allocate :: "nat \<Rightarrow> bool"
  prepare_map_index :: "'a HashTableProbeState \<Rightarrow> nat \<Rightarrow> 'a HashTableProbeState"
  encode_key :: "JoinHashMapType \<Rightarrow> 'a column list \<Rightarrow> nat \<Rightarrow> 8 word list"

text \<open>\<^verbatim>\<open>std::vector::resize(n, v)\<close>: keeps the first \<open>n\<close> elements, fills with \<open>v\<close>.\<close>

definition resize :: "'b list \<Rightarrow> nat \<Rightarrow> 'b \<Rightarrow> 'b list" where
  "resize xs n v = take n xs @ replicate (n - length xs) v"

section \<open>The opaque-bytes build\<close>

text \<open>\<^verbatim>\<open>SerializedJoinBuildFunc::prepare\<close>.\<close>

definition SerializedJoinBuildFunc_prepare ::
    "nat \<Rightarrow> 'a JoinHashTableItems \<times> 'a HashTableProbeState
       \<Rightarrow> Status \<times> 'a JoinHashTableItems \<times> 'a HashTableProbeState" where
  "SerializedJoinBuildFunc_prepare chunk_size st =
     (case st of (items, ps) \<Rightarrow>
        (OK,
         items\<lparr>build_slice := resize (build_slice items) ((row_count items + 1) mod 2 ^ 32) []\<rparr>,
         ps\<lparr>buckets := resize (buckets ps) chunk_size 0,
            is_nulls := resize (is_nulls ps) chunk_size 0\<rparr>))"

text \<open>
  The loop that opens both \<^verbatim>\<open>construct_hash_table\<close> and \<^verbatim>\<open>lookup_init\<close>: a
  null-safe key contributes its column as it is; any other key contributes its data column, and
  its null-indicator column when the column is nullable and holds a NULL.
\<close>

definition collect_key_columns ::
    "JoinKeyDesc list \<Rightarrow> 'a column list \<Rightarrow> 'a column list \<times> 8 word list list" where
  "collect_key_columns keys cols =
     fold (\<lambda>i (data_columns, null_columns).
             if is_null_safe_equal (keys ! i) then (data_columns @ [cols ! i], null_columns)
             else if is_nullable (cols ! i)
             then (data_columns @ [data_column (cols ! i)],
                   if has_null (cols ! i) then null_columns @ [null_column (cols ! i)]
                   else null_columns)
             else (data_columns @ [cols ! i], null_columns))
       [0..<length cols] ([], [])"

text \<open>
  The first two loops of \<^verbatim>\<open>_build_nullable_columns\<close> and of
  \<^verbatim>\<open>_probe_nullable_column\<close>: \<open>is_nulls[i]\<close> becomes the bitwise OR of the null
  indicators of row \<open>start + i\<close> (the probe side has \<open>start = 0\<close>).
\<close>

definition fill_is_nulls :: "8 word list list \<Rightarrow> nat \<Rightarrow> nat \<Rightarrow> 8 word list \<Rightarrow> 8 word list" where
  "fill_is_nulls null_columns start count nulls =
     (let nulls1 = fold (\<lambda>i ns. ns[i := null_columns ! 0 ! (start + i)]) [0..<count] nulls
      in fold (\<lambda>i ns. fold (\<lambda>j ns. ns[j := (ns ! j) OR (null_columns ! i ! (start + j))]) [0..<count] ns)
           [1..<length null_columns] nulls1)"

text \<open>
  The loop that serializes the keys of rows \<open>start\<close> to \<open>start + count - 1\<close> and computes
  their buckets. The arena pointer \<^verbatim>\<open>ptr\<close> is not modelled: a serialized key is a value.
\<close>

definition serialize_build_rows ::
    "'a collab \<Rightarrow> 'a column list \<Rightarrow> nat \<Rightarrow> nat \<Rightarrow> nat
       \<Rightarrow> 8 word list list \<times> nat list \<Rightarrow> 8 word list list \<times> nat list" where
  "serialize_build_rows c data_columns bsize start count =
     fold (\<lambda>i (slices, bks).
             let slices1 = slices[start + i := get_hash_key c data_columns (start + i)]
             in (slices1, bks[i := calc_bucket_num c (slices1 ! (start + i)) bsize]))
       [0..<count]"

text \<open>
  The linking loop: \<^verbatim>\<open>next[start + i] = first[buckets[i]]; first[buckets[i]] = start + i\<close>.
  The state is the pair of \<open>first\<close> and \<open>next\<close>.
\<close>

definition link_rows :: "nat list \<Rightarrow> nat \<Rightarrow> nat \<Rightarrow> nat list \<times> nat list \<Rightarrow> nat list \<times> nat list" where
  "link_rows bks start count =
     fold (\<lambda>i (fst_arr, nxt_arr).
             (fst_arr[bks ! i := start + i], nxt_arr[start + i := fst_arr ! (bks ! i)]))
       [0..<count]"

text \<open>\<^verbatim>\<open>SerializedJoinBuildFunc::_build_columns\<close>.\<close>

definition build_columns ::
    "'a collab \<Rightarrow> 'a column list \<Rightarrow> nat \<Rightarrow> nat
       \<Rightarrow> 'a JoinHashTableItems \<times> 'a HashTableProbeState
       \<Rightarrow> 'a JoinHashTableItems \<times> 'a HashTableProbeState" where
  "build_columns c data_columns start count st =
     (case st of (items, ps) \<Rightarrow>
        (case serialize_build_rows c data_columns (bucket_size items) start count
                (build_slice items, buckets ps) of (slices, bks) \<Rightarrow>
           (case link_rows bks start count (first items, next items) of (fst_arr, nxt_arr) \<Rightarrow>
              (items\<lparr>build_slice := slices, first := fst_arr, next := nxt_arr\<rparr>,
               ps\<lparr>buckets := bks\<rparr>))))"

text \<open>The same two loops under the test \<^verbatim>\<open>is_nulls[i] == 0\<close>.\<close>

definition serialize_build_rows_nullable ::
    "'a collab \<Rightarrow> 'a column list \<Rightarrow> nat \<Rightarrow> 8 word list \<Rightarrow> nat \<Rightarrow> nat
       \<Rightarrow> 8 word list list \<times> nat list \<Rightarrow> 8 word list list \<times> nat list" where
  "serialize_build_rows_nullable c data_columns bsize nulls start count =
     fold (\<lambda>i (slices, bks).
             if nulls ! i = 0
             then (let slices1 = slices[start + i := get_hash_key c data_columns (start + i)]
                   in (slices1, bks[i := calc_bucket_num c (slices1 ! (start + i)) bsize]))
             else (slices, bks))
       [0..<count]"

definition link_rows_nullable ::
    "8 word list \<Rightarrow> nat list \<Rightarrow> nat \<Rightarrow> nat \<Rightarrow> nat list \<times> nat list \<Rightarrow> nat list \<times> nat list" where
  "link_rows_nullable nulls bks start count =
     fold (\<lambda>i (fst_arr, nxt_arr).
             if nulls ! i = 0
             then (fst_arr[bks ! i := start + i], nxt_arr[start + i := fst_arr ! (bks ! i)])
             else (fst_arr, nxt_arr))
       [0..<count]"

text \<open>\<^verbatim>\<open>SerializedJoinBuildFunc::_build_nullable_columns\<close>.\<close>

definition build_nullable_columns ::
    "'a collab \<Rightarrow> 'a column list \<Rightarrow> 8 word list list \<Rightarrow> nat \<Rightarrow> nat
       \<Rightarrow> 'a JoinHashTableItems \<times> 'a HashTableProbeState
       \<Rightarrow> 'a JoinHashTableItems \<times> 'a HashTableProbeState" where
  "build_nullable_columns c data_columns null_columns start count st =
     (case st of (items, ps) \<Rightarrow>
        (let nulls = fill_is_nulls null_columns start count (is_nulls ps) in
         case serialize_build_rows_nullable c data_columns (bucket_size items) nulls start count
                (build_slice items, buckets ps) of (slices, bks) \<Rightarrow>
           (case link_rows_nullable nulls bks start count (first items, next items) of
              (fst_arr, nxt_arr) \<Rightarrow>
                (items\<lparr>build_slice := slices, first := fst_arr, next := nxt_arr\<rparr>,
                 ps\<lparr>is_nulls := nulls, buckets := bks\<rparr>))))"

text \<open>
  \<^verbatim>\<open>SerializedJoinBuildFunc::construct_hash_table\<close>. The rows 1 to \<open>row_count\<close> are
  processed in runs of \<open>chunk_size\<close> rows and a last run of the remaining rows.
\<close>

definition construct_hash_table ::
    "'a collab \<Rightarrow> nat \<Rightarrow> 'a JoinHashTableItems \<times> 'a HashTableProbeState
       \<Rightarrow> Status \<times> 'a JoinHashTableItems \<times> 'a HashTableProbeState" where
  "construct_hash_table c chunk_size st =
     (case st of (items, ps) \<Rightarrow>
        (case collect_key_columns (join_keys items) (key_columns items) of
           (data_columns, null_columns) \<Rightarrow>
             (let serialize_size = sum_list (map (max_serialized_size c) data_columns) in
              if \<not> allocate c serialize_size then (MemoryAllocFailed, st)
              else (let quo = row_count items div chunk_size;
                        rem = row_count items mod chunk_size
                    in if null_columns \<noteq> []
                       then (OK, build_nullable_columns c data_columns null_columns
                                   (1 + chunk_size * quo) rem
                                   (fold (\<lambda>i. build_nullable_columns c data_columns null_columns
                                                 (1 + chunk_size * i) chunk_size) [0..<quo] st))
                       else (OK, build_columns c data_columns (1 + chunk_size * quo) rem
                                   (fold (\<lambda>i. build_columns c data_columns
                                                 (1 + chunk_size * i) chunk_size) [0..<quo] st))))))"

section \<open>The opaque-bytes lookup\<close>




section \<open>Finalizing the table\<close>

text \<open>
  Modelled from the spec: the build routine of the \<open>slice\<close> layout is
  \<^verbatim>\<open>JoinHashMap::build\<close> in \<^verbatim>\<open>join_hash_map.h\<close>, which is not among the sources; the
  spec says that \<^verbatim>\<open>build()\<close> dispatches to the opaque-bytes build, whose two steps are
  the functions \<^verbatim>\<open>prepare\<close> and \<^verbatim>\<open>construct_hash_table\<close> above, the first failure
  ending the build.
\<close>

definition serialized_build ::
    "'a collab \<Rightarrow> nat \<Rightarrow> 'a JoinHashTableItems \<times> 'a HashTableProbeState
       \<Rightarrow> Status \<times> 'a JoinHashTableItems \<times> 'a HashTableProbeState" where
  "serialized_build c chunk_size st =
     (case SerializedJoinBuildFunc_prepare chunk_size st of
        (status, st1) \<Rightarrow> if status \<noteq> OK then (status, st1) else construct_hash_table c chunk_size st1)"

text \<open>
  A row is excluded from the index when one of the collected null-indicator columns marks it,
  that is, when a key that is not null-safe is NULL in that row.
\<close>

definition row_is_null :: "8 word list list \<Rightarrow> nat \<Rightarrow> bool" where
  "row_is_null null_columns r = list_ex (\<lambda>nc. nc ! r \<noteq> 0) null_columns"

text \<open>
  Modelled from the spec: the build routines of the typed and the packed layouts are in
  \<^verbatim>\<open>join_hash_map.h\<close>, which is not among the sources. By the spec (4.2) they have the
  control flow of the opaque-bytes build, with keys packed into fixed-size words or used as
  typed values and no key buffer to allocate: a null-safe key contributes its column as it is,
  any other key its data column and its null-indicator column; a row in which a key that is
  not null-safe is NULL is excluded from the index; every included row, in insertion order, has
  its bucket computed from its key and is linked by
  \<^verbatim>\<open>next[row] = first[bucket]; first[bucket] = row\<close>.
\<close>

definition layout_link_rows ::
    "'a collab \<Rightarrow> JoinHashMapType \<Rightarrow> 'a column list \<Rightarrow> 8 word list list \<Rightarrow> nat \<Rightarrow> nat
       \<Rightarrow> nat list \<times> nat list \<Rightarrow> nat list \<times> nat list" where
  "layout_link_rows c ty data_columns null_columns bsize rows =
     fold (\<lambda>r (fst_arr, nxt_arr).
             if row_is_null null_columns r then (fst_arr, nxt_arr)
             else (let b = calc_bucket_num c (encode_key c ty data_columns r) bsize
                   in (fst_arr[b := r], nxt_arr[r := fst_arr ! b])))
       [1..<Suc rows]"

definition layout_build ::
    "'a collab \<Rightarrow> JoinHashMapType \<Rightarrow> 'a JoinHashTableItems \<times> 'a HashTableProbeState
       \<Rightarrow> Status \<times> 'a JoinHashTableItems \<times> 'a HashTableProbeState" where
  "layout_build c ty st =
     (case st of (items, ps) \<Rightarrow>
        (case collect_key_columns (join_keys items) (key_columns items) of
           (data_columns, null_columns) \<Rightarrow>
             (case layout_link_rows c ty data_columns null_columns (bucket_size items)
                     (row_count items) (first items, next items) of
                (fst_arr, nxt_arr) \<Rightarrow> (OK, items\<lparr>first := fst_arr, next := nxt_arr\<rparr>, ps))))"

text \<open>
  \<^verbatim>\<open>JoinHashTable::build\<close>. \<^verbatim>\<open>row_count + 1\<close> is computed in 32 bits. The status of
  the layout's build routine is the status of \<^verbatim>\<open>build\<close>. Every layout tag is a case of
  the switch, so its default branch is never taken.
\<close>

definition build :: "'a collab \<Rightarrow> nat \<Rightarrow> 'a JoinHashTable \<Rightarrow> Status \<times> 'a JoinHashTable" where
  "build c chunk_size ht =
     (case choose_join_hash_map (cpp_size c) (join_keys (table_items ht)) (key_columns (table_items ht)) of
        (ty, keys) \<Rightarrow>
          (let items = (table_items ht)\<lparr>join_keys := keys\<rparr>;
               n = (row_count items + 1) mod 2 ^ 32;
               bsize = calc_bucket_size c n;
               items1 = items\<lparr>bucket_size := bsize,
                              first := resize (first items) bsize 0,
                              next := resize (next items) n 0\<rparr>;
               ps = probe_state ht;
               ps1 = (if join_type items1 = RIGHT_OUTER_JOIN \<or> join_type items1 = FULL_OUTER_JOIN
                         \<or> join_type items1 = RIGHT_SEMI_JOIN \<or> join_type items1 = RIGHT_ANTI_JOIN
                      then ps\<lparr>build_match_index := (resize (build_match_index ps) n 0)[0 := 1]\<rparr>
                      else ps);
               ps2 = prepare_map_index c ps1 chunk_size;
               ht1 = ht\<lparr>hash_map_type := ty, table_items := items1, probe_state := ps2\<rparr>
           in if ty = empty then (OK, ht1)
              else (case (if ty = slice then serialized_build c chunk_size (items1, ps2)
                          else layout_build c ty (items1, ps2)) of
                      (status, items2, ps3) \<Rightarrow>
                        (status, ht1\<lparr>table_items := items2, probe_state := ps3\<rparr>))))"

section \<open>Lookup init of a probe batch\<close>



section \<open>Duplicate and multiplicity correction\<close>

text \<open>
  The seven loops of \<^verbatim>\<open>remove_duplicate_index\<close>. Each runs over the indices of the filter
  (a vector of bytes) and works on the probe state and the filter.
\<close>

definition remove_duplicate_index_for_left_outer_join ::
    "'a HashTableProbeState \<times> 8 word list \<Rightarrow> 'a HashTableProbeState \<times> 8 word list" where
  "remove_duplicate_index_for_left_outer_join st =
     fold (\<lambda>i (ps, flt).
             let p = probe_index ps ! i in
             if probe_match_index ps ! p = 0 then (ps, flt[i := 1])
             else if probe_match_index ps ! p = 1
             then (if flt ! i = 0 then (ps, flt[i := 1]) else (ps, flt))
             else if flt ! i = 0
             then (ps\<lparr>probe_match_index := (probe_match_index ps)[p := probe_match_index ps ! p - 1]\<rparr>, flt)
             else (ps, flt))
       [0..<length (snd st)] st"

definition remove_duplicate_index_for_left_semi_join ::
    "'a HashTableProbeState \<times> 8 word list \<Rightarrow> 'a HashTableProbeState \<times> 8 word list" where
  "remove_duplicate_index_for_left_semi_join st =
     fold (\<lambda>i (ps, flt).
             let p = probe_index ps ! i in
             if flt ! i = 1
             then (if probe_match_index ps ! p = 0
                   then (ps\<lparr>probe_match_index := (probe_match_index ps)[p := 1]\<rparr>, flt)
                   else (ps, flt[i := 0]))
             else (ps, flt))
       [0..<length (snd st)] st"

definition remove_duplicate_index_for_left_anti_join ::
    "'a HashTableProbeState \<times> 8 word list \<Rightarrow> 'a HashTableProbeState \<times> 8 word list" where
  "remove_duplicate_index_for_left_anti_join st =
     fold (\<lambda>i (ps, flt).
             let p = probe_index ps ! i in
             if probe_match_index ps ! p = 0 then (ps, flt[i := 1])
             else if probe_match_index ps ! p = 1
             then (ps\<lparr>probe_match_index := (probe_match_index ps)[p := probe_match_index ps ! p - 1]\<rparr>,
                   flt[i := (if flt ! i = 0 then 1 else 0)])
             else if flt ! i = 0
             then (ps\<lparr>probe_match_index := (probe_match_index ps)[p := probe_match_index ps ! p - 1]\<rparr>, flt)
             else (ps, flt[i := 0]))
       [0..<length (snd st)] st"

definition remove_duplicate_index_for_right_outer_join ::
    "'a HashTableProbeState \<times> 8 word list \<Rightarrow> 'a HashTableProbeState \<times> 8 word list" where
  "remove_duplicate_index_for_right_outer_join st =
     fold (\<lambda>i (ps, flt).
             if flt ! i = 1
             then (ps\<lparr>build_match_index := (build_match_index ps)[build_index ps ! i := 1]\<rparr>, flt)
             else (ps, flt))
       [0..<length (snd st)] st"

definition remove_duplicate_index_for_right_semi_join ::
    "'a HashTableProbeState \<times> 8 word list \<Rightarrow> 'a HashTableProbeState \<times> 8 word list" where
  "remove_duplicate_index_for_right_semi_join st =
     fold (\<lambda>i (ps, flt).
             let b = build_index ps ! i in
             if flt ! i = 1
             then (if build_match_index ps ! b = 0
                   then (ps\<lparr>build_match_index := (build_match_index ps)[b := 1]\<rparr>, flt)
                   else (ps, flt[i := 0]))
             else (ps, flt))
       [0..<length (snd st)] st"

definition remove_duplicate_index_for_right_anti_join ::
    "'a HashTableProbeState \<times> 8 word list \<Rightarrow> 'a HashTableProbeState \<times> 8 word list" where
  "remove_duplicate_index_for_right_anti_join st =
     fold (\<lambda>i (ps, flt).
             if flt ! i = 1
             then (ps\<lparr>build_match_index := (build_match_index ps)[build_index ps ! i := 1]\<rparr>, flt)
             else (ps, flt))
       [0..<length (snd st)] st"

definition remove_duplicate_index_for_full_outer_join ::
    "'a HashTableProbeState \<times> 8 word list \<Rightarrow> 'a HashTableProbeState \<times> 8 word list" where
  "remove_duplicate_index_for_full_outer_join st =
     fold (\<lambda>i (ps, flt).
             let p = probe_index ps ! i; b = build_index ps ! i in
             if probe_match_index ps ! p = 0 then (ps, flt[i := 1])
             else if probe_match_index ps ! p = 1
             then (if flt ! i = 0 then (ps, flt[i := 1])
                   else (ps\<lparr>build_match_index := (build_match_index ps)[b := 1]\<rparr>, flt))
             else if flt ! i = 0
             then (ps\<lparr>probe_match_index := (probe_match_index ps)[p := probe_match_index ps ! p - 1]\<rparr>, flt)
             else (ps\<lparr>build_match_index := (build_match_index ps)[b := 1]\<rparr>, flt))
       [0..<length (snd st)] st"

text \<open>
  \<^verbatim>\<open>JoinHashTable::remove_duplicate_index\<close>: the switch on the join type. It returns the
  probe state and the filter, both of which the source updates in place.
\<close>

fun remove_duplicate_index ::
    "TJoinOp \<Rightarrow> 'a HashTableProbeState \<times> 8 word list \<Rightarrow> 'a HashTableProbeState \<times> 8 word list" where
  "remove_duplicate_index LEFT_OUTER_JOIN st = remove_duplicate_index_for_left_outer_join st"
| "remove_duplicate_index LEFT_SEMI_JOIN st = remove_duplicate_index_for_left_semi_join st"
| "remove_duplicate_index LEFT_ANTI_JOIN st = remove_duplicate_index_for_left_anti_join st"
| "remove_duplicate_index NULL_AWARE_LEFT_ANTI_JOIN st = remove_duplicate_index_for_left_anti_join st"
| "remove_duplicate_index RIGHT_OUTER_JOIN st = remove_duplicate_index_for_right_outer_join st"
| "remove_duplicate_index RIGHT_SEMI_JOIN st = remove_duplicate_index_for_right_semi_join st"
| "remove_duplicate_index RIGHT_ANTI_JOIN st = remove_duplicate_index_for_right_anti_join st"
| "remove_duplicate_index FULL_OUTER_JOIN st = remove_duplicate_index_for_full_outer_join st"
| "remove_duplicate_index _ st = st"

section \<open>The build operator's finishing step\<close>

text \<open>
  \<^verbatim>\<open>HashJoinBuildOperator\<close> of \<^verbatim>\<open>hash_join_build_operator.cpp\<close>. The joiners, the
  filter merger, the runtime filter port and the filter hub are collaborators whose code is not
  among the sources: a call to one of them is an event of a trace, in the order of the calls,
  and what they return is given by the environment. Read-only probers are known by a number.
  The type \<open>'f\<close> stands for a set of runtime filters.
\<close>

record HashJoinBuildOperator =
  is_finished :: bool
  driver_sequence :: nat
  plan_node_id :: nat
  read_only_join_probers :: "nat list"

datatype 'f event =
    Build_ht
  | Create_runtime_filters
  | Add_partial_filters nat nat 'f 'f 'f
  | Publish_runtime_filters 'f
  | Set_collector nat 'f 'f
  | Reference_hash_table nat
  | Builder_enter_probe_phase
  | Prober_enter_probe_phase nat

text \<open>
  What the collaborators return during \<^verbatim>\<open>set_finishing\<close>: the row count and the partial
  filters of the join builder, the result of \<^verbatim>\<open>add_partial_filters\<close> (a
  \<^verbatim>\<open>StatusOr<bool>\<close>: \<open>Inl\<close> a failure status, \<open>Inr\<close> whether the set of
  contributions is complete), and the merged filters of the merger.
\<close>

record 'f finishing_env =
  ht_row_count :: nat
  runtime_in_filters :: 'f
  runtime_bloom_filter_build_params :: 'f
  runtime_bloom_filters :: 'f
  add_partial_filters :: "nat \<Rightarrow> nat \<Rightarrow> 'f \<Rightarrow> 'f \<Rightarrow> 'f \<Rightarrow> Status + bool"
  total_in_filters :: 'f
  total_bloom_filters :: 'f

text \<open>
  \<^verbatim>\<open>HashJoinBuildOperator::set_finishing\<close>: the operator afterwards and the calls made.
  The \<^verbatim>\<open>DCHECK\<close> on the distribution mode is a debug assertion and is left out.
\<close>

definition set_finishing ::
    "'f finishing_env \<Rightarrow> HashJoinBuildOperator \<Rightarrow> HashJoinBuildOperator \<times> 'f event list" where
  "set_finishing env oper =
     (let merger_index = driver_sequence oper;
          status = add_partial_filters env merger_index (ht_row_count env) (runtime_in_filters env)
                     (runtime_bloom_filter_build_params env) (runtime_bloom_filters env)
      in (oper\<lparr>is_finished := True\<rparr>,
          [Build_ht, Create_runtime_filters,
           Add_partial_filters merger_index (ht_row_count env) (runtime_in_filters env)
             (runtime_bloom_filter_build_params env) (runtime_bloom_filters env)]
          @ (case status of
               Inr True \<Rightarrow> [Publish_runtime_filters (total_bloom_filters env),
                             Set_collector (plan_node_id oper) (total_in_filters env) (total_bloom_filters env)]
             | Inr False \<Rightarrow> []
             | Inl err \<Rightarrow> [])
          @ map Reference_hash_table (read_only_join_probers oper)
          @ [Builder_enter_probe_phase]
          @ map Prober_enter_probe_phase (read_only_join_probers oper)))"

section \<open>Candidate batches of a probe batch\<close>

text \<open>
  Modelled from the spec: the chain walk that fills \<open>probe_index\<close> and \<open>build_index\<close> with
  the candidate pairs of an output batch is in \<^verbatim>\<open>join_hash_map.h\<close>, and the caller that
  evaluates the residual predicates is in another file; neither is among the sources. By the
  spec (4.3), the candidates of one probe batch may span several output batches, each is
  given a keep/drop vector by the residual predicates and then corrected by
  \<^verbatim>\<open>remove_duplicate_index\<close>, and the match counters persist from one output batch to the
  next. A candidate batch is the content of \<open>probe_index\<close>, the content of \<open>build_index\<close>
  and the keep/drop vector.
\<close>

type_synonym candidate_batch = "nat list \<times> nat list \<times> 8 word list"

definition apply_batch ::
    "TJoinOp \<Rightarrow> 'a HashTableProbeState \<Rightarrow> candidate_batch \<Rightarrow> 'a HashTableProbeState \<times> 8 word list" where
  "apply_batch jt ps b =
     (case b of (pidx, bidx, flt) \<Rightarrow>
        remove_duplicate_index jt (ps\<lparr>probe_index := pidx, build_index := bidx\<rparr>, flt))"

fun run_batches ::
    "TJoinOp \<Rightarrow> 'a HashTableProbeState \<Rightarrow> candidate_batch list \<Rightarrow> 8 word list list \<times> 'a HashTableProbeState" where
  "run_batches jt ps [] = ([], ps)"
| "run_batches jt ps (b # bs) =
     (case apply_batch jt ps b of (ps1, flt1) \<Rightarrow>
        (case run_batches jt ps1 bs of (outs, ps2) \<Rightarrow> (flt1 # outs, ps2)))"

section \<open>Notions used to state the properties\<close>

text \<open>
  The key types that \<^verbatim>\<open>_get_size_of_fixed_and_contiguous_type\<close> names, and the
  number of bytes a key adds to the packed total: the size of its type, and one byte more if the
  key is null-safe.
\<close>

definition fixed_and_contiguous_types :: "PrimitiveType set" where
  "fixed_and_contiguous_types =
     {TYPE_BOOLEAN, TYPE_TINYINT, TYPE_SMALLINT, TYPE_INT, TYPE_BIGINT, TYPE_FLOAT, TYPE_DOUBLE,
      TYPE_DATE, TYPE_DATETIME}"

definition packed_width :: "(PrimitiveType \<Rightarrow> nat) \<Rightarrow> JoinKeyDesc \<Rightarrow> nat" where
  "packed_width sz k = sz (key_type k) + (if is_null_safe_equal k then 1 else 0)"

text \<open>
  A batch is well formed for a table when, for every build slot, it holds a column of as many
  rows as the batch has. \<open>append_chunks\<close> appends a sequence of batches in order.
\<close>

definition chunk_ok :: "HashTableSlotDescriptor list \<Rightarrow> 'a Chunk \<Rightarrow> bool" where
  "chunk_ok bslots chunk =
     list_all (\<lambda>s. case map_of (slot_id_to_index chunk) (slot_id (slot s)) of
                      None \<Rightarrow> False
                    | Some j \<Rightarrow> j < length (columns chunk) \<and> col_size (columns chunk ! j) = num_rows chunk)
       bslots"

definition append_chunks :: "'a JoinHashTable \<Rightarrow> 'a Chunk list \<Rightarrow> 'a JoinHashTable" where
  "append_chunks ht batches = fold (\<lambda>chunk h. append_chunk h chunk) batches ht"

text \<open>
  The invariants of the proofs: after \<open>n\<close> appended rows every build column has
  \<open>n + 1\<close> rows, the first being the default row that \<^verbatim>\<open>create\<close> appends.
\<close>

definition build_inv :: "'a JoinHashTable \<Rightarrow> nat \<Rightarrow> bool" where
  "build_inv ht n =
     (let items = table_items ht in
      length (columns (build_chunk items)) = build_column_count items \<and>
      length (build_slots items) = build_column_count items \<and>
      (\<forall>c \<in> set (columns (build_chunk items)). col_size c = n + 1) \<and>
      row_count items = n mod 2 ^ 32)"

definition create_inv :: "'a JoinHashTableItems \<Rightarrow> bool" where
  "create_inv items =
     (length (columns (build_chunk items)) = build_column_count items \<and>
      length (build_slots items) = build_column_count items \<and>
      (\<forall>c \<in> set (columns (build_chunk items)). col_size c = 1) \<and>
      row_count items = 0)"

text \<open>The column that \<^verbatim>\<open>create\<close> makes for a build slot: one default row.\<close>

definition new_build_column :: "'a \<Rightarrow> SlotDescriptor \<Rightarrow> 'a column" where
  "new_build_column dflt s = (if slot_is_nullable s then NullableColumn [dflt] [0] else FixedColumn [dflt])"

text \<open>
  The join types for which \<^verbatim>\<open>build\<close> allocates \<open>build_match_index\<close>, and the
  condition that \<^verbatim>\<open>prepare_map_index\<close>, which is a parameter, leaves that array alone.
\<close>

definition needs_build_match_index :: "TJoinOp \<Rightarrow> bool" where
  "needs_build_match_index jt =
     (jt = RIGHT_OUTER_JOIN \<or> jt = FULL_OUTER_JOIN \<or> jt = RIGHT_SEMI_JOIN \<or> jt = RIGHT_ANTI_JOIN)"

definition keeps_build_match_index :: "'a collab \<Rightarrow> bool" where
  "keeps_build_match_index c =
     (\<forall>ps n. build_match_index (prepare_map_index c ps n) = build_match_index ps)"

text \<open>
  The array that marking the build rows of the accepted candidates \<open>0\<close> to \<open>n - 1\<close>
  gives.
\<close>

definition mark_build_rows :: "nat list \<Rightarrow> 8 word list \<Rightarrow> nat \<Rightarrow> nat list \<Rightarrow> nat list" where
  "mark_build_rows bidx flt n bmi = fold (\<lambda>i b. if flt ! i = 1 then b[bidx ! i := 1] else b) [0..<n] bmi"

text \<open>
  A publication is a call that hands merged filters to the runtime filter port or to the
  filter hub. The probe-phase handoff is the sequence of calls that gives every read-only
  prober the finished table and moves the builder and the probers to the probe phase.
\<close>

fun is_publication :: "'f event \<Rightarrow> bool" where
  "is_publication (Publish_runtime_filters b) = True"
| "is_publication (Set_collector n i b) = True"
| "is_publication _ = False"

definition handoff :: "HashJoinBuildOperator \<Rightarrow> 'f event list" where
  "handoff oper =
     map Reference_hash_table (read_only_join_probers oper)
     @ [Builder_enter_probe_phase]
     @ map Prober_enter_probe_phase (read_only_join_probers oper)"

text \<open>
  The candidates of a sequence of batches in order, each with its probe row and its keep flag
  before the correction; and the batches whose probe rows are below \<open>n\<close>, the length of
  \<open>probe_match_index\<close>, and whose \<open>probe_index\<close> has an entry for every flag.
\<close>

definition candidates :: "candidate_batch list \<Rightarrow> (nat \<times> 8 word) list" where
  "candidates batches = concat (map (\<lambda>b. case b of (pidx, bidx, flt) \<Rightarrow> zip pidx flt) batches)"

definition batch_ok :: "nat \<Rightarrow> candidate_batch \<Rightarrow> bool" where
  "batch_ok n b =
     (case b of (pidx, bidx, flt) \<Rightarrow>
        length flt \<le> length pidx \<and> list_all (\<lambda>p. p < n) (take (length flt) pidx))"

text \<open>The loop of the LEFT_SEMI correction on the two arrays it works on.\<close>

definition semi_step :: "nat list \<Rightarrow> nat \<Rightarrow> nat list \<times> 8 word list \<Rightarrow> nat list \<times> 8 word list" where
  "semi_step pidx i mf =
     (case mf of (m, f) \<Rightarrow>
        if f ! i = 1
        then (if m ! (pidx ! i) = 0 then (m[pidx ! i := 1], f) else (m, f[i := 0]))
        else (m, f))"

definition semi_arr :: "nat list \<Rightarrow> nat \<Rightarrow> nat list \<times> 8 word list \<Rightarrow> nat list \<times> 8 word list" where
  "semi_arr pidx n = fold (semi_step pidx) [0..<n]"

text \<open>
  Walking a chain: \<open>chain_is nxt r rows\<close> holds when following \<open>nxt\<close> from the head
  \<open>r\<close> until the terminator 0 visits exactly \<open>rows\<close>, in that order.
\<close>

fun chain_is :: "nat list \<Rightarrow> nat \<Rightarrow> nat list \<Rightarrow> bool" where
  "chain_is nxt r [] = (r = 0)"
| "chain_is nxt r (x # xs) = (r = x \<and> r \<noteq> 0 \<and> chain_is nxt (nxt ! r) xs)"

text \<open>
  The rows 1 to \<open>m\<close> that satisfy \<open>P\<close> and have bucket \<open>b\<close>, the last inserted first.
\<close>

definition bucket_rows :: "(nat \<Rightarrow> bool) \<Rightarrow> (nat \<Rightarrow> nat) \<Rightarrow> nat \<Rightarrow> nat \<Rightarrow> nat list" where
  "bucket_rows P B m b = rev (filter (\<lambda>r. P r \<and> B r = b) [1..<Suc m])"

text \<open>
  The invariant of the linking loops after the rows 1 to \<open>m\<close>: every bucket's chain is its
  rows in reverse insertion order, and \<open>first\<close> and \<open>next\<close> hold only 0 and included rows.
\<close>

definition link_inv ::
    "(nat \<Rightarrow> bool) \<Rightarrow> (nat \<Rightarrow> nat) \<Rightarrow> nat \<Rightarrow> nat \<Rightarrow> nat \<Rightarrow> nat list \<times> nat list \<Rightarrow> bool" where
  "link_inv P B bsize len m fn =
     (case fn of (F, N) \<Rightarrow>
        length F = bsize \<and> length N = len \<and>
        (\<forall>b<bsize. chain_is N (F ! b) (bucket_rows P B m b)) \<and>
        (\<forall>x\<in>set F. x = 0 \<or> (P x \<and> x \<le> m)) \<and>
        (\<forall>x\<in>set N. x = 0 \<or> (P x \<and> x \<le> m)))"

text \<open>The bitwise OR of the null indicators of row \<open>r\<close> in the first \<open>m\<close> columns.\<close>

definition or_upto :: "8 word list list \<Rightarrow> nat \<Rightarrow> nat \<Rightarrow> 8 word" where
  "or_upto ncs m r = fold (\<lambda>i a. a OR ncs ! i ! r) [1..<m] (ncs ! 0 ! r)"

text \<open>The bucket of build row \<open>r\<close>: the bucket number of its serialized key.\<close>

definition bucket_of :: "'a collab \<Rightarrow> 'a column list \<Rightarrow> nat \<Rightarrow> nat \<Rightarrow> nat" where
  "bucket_of c data_columns bsize r = calc_bucket_num c (get_hash_key c data_columns r) bsize"

text \<open>
  The invariant of \<^verbatim>\<open>construct_hash_table\<close> between two runs of rows, relative to the
  state \<open>st0\<close> it starts from.
\<close>

definition build_inv_st ::
    "'a collab \<Rightarrow> 'a column list \<Rightarrow> 8 word list list \<Rightarrow> nat \<Rightarrow> nat
       \<Rightarrow> 'a JoinHashTableItems \<times> 'a HashTableProbeState
       \<Rightarrow> 'a JoinHashTableItems \<times> 'a HashTableProbeState \<Rightarrow> bool" where
  "build_inv_st c dcs ncs chunk_size m st0 st =
     (link_inv (\<lambda>r. \<not> row_is_null ncs r) (bucket_of c dcs (bucket_size (fst st0)))
        (bucket_size (fst st0)) (Suc (row_count (fst st0))) m (first (fst st), next (fst st)) \<and>
      bucket_size (fst st) = bucket_size (fst st0) \<and>
      row_count (fst st) = row_count (fst st0) \<and>
      length (build_slice (fst st)) = Suc (row_count (fst st0)) \<and>
      length (buckets (snd st)) = chunk_size \<and>
      length (is_nulls (snd st)) = chunk_size)"




section \<open>Concrete inputs\<close>

text \<open>
  A join of one probe tuple and one build tuple with one build slot, on an INT key and a
  VARCHAR key (so that the layout is \<open>slice\<close>), build batches of one column, and an
  instance of the collaborators. They are used to evaluate the functions on concrete inputs.
\<close>

definition ex_build_tuple :: TupleDescriptor where
  "ex_build_tuple = \<lparr>tuple_id = 1, slots = [\<lparr>slot_id = 10, slot_type = TYPE_INT, slot_is_nullable = False\<rparr>]\<rparr>"

definition ex_probe_tuple :: TupleDescriptor where
  "ex_probe_tuple = \<lparr>tuple_id = 0, slots = [\<lparr>slot_id = 5, slot_type = TYPE_INT, slot_is_nullable = False\<rparr>]\<rparr>"

definition ex_join_keys :: "JoinKeyDesc list" where
  "ex_join_keys = [\<lparr>key_type = TYPE_INT, is_null_safe_equal = False\<rparr>,
                   \<lparr>key_type = TYPE_VARCHAR, is_null_safe_equal = False\<rparr>]"

definition ex_param :: "TJoinOp \<Rightarrow> HashTableParam" where
  "ex_param jt =
     \<lparr>param_need_create_tuple_columns = False, param_with_other_conjunct = True,
      param_join_type = jt,
      param_row_desc = \<lparr>tuple_descriptors = [ex_probe_tuple, ex_build_tuple]\<rparr>,
      build_row_desc = \<lparr>tuple_descriptors = [ex_build_tuple]\<rparr>,
      probe_row_desc = \<lparr>tuple_descriptors = [ex_probe_tuple]\<rparr>,
      output_slots = [], predicate_slots = [],
      param_join_keys = ex_join_keys\<rparr>"

definition ex_chunk :: "int list \<Rightarrow> int Chunk" where
  "ex_chunk vs = \<lparr>columns = [FixedColumn vs], slot_id_to_index = [(10, 0)], tuple_columns = []\<rparr>"

text \<open>
  A table after \<^verbatim>\<open>create\<close> and one batch of two rows, with the key columns that the
  caller evaluates over the build chunk (row 0 is the default row).
\<close>

definition ex_table :: "TJoinOp \<Rightarrow> int column list \<Rightarrow> int JoinHashTable" where
  "ex_table jt key_cols =
     (let ht = append_chunk (create 0 (ex_param jt)) (ex_chunk [7, 8])
      in ht\<lparr>table_items := (table_items ht)\<lparr>key_columns := key_cols\<rparr>\<rparr>)"

fun cell :: "'a column \<Rightarrow> nat \<Rightarrow> 'a" where
  "cell (FixedColumn xs) r = xs ! r"
| "cell (NullableColumn xs ns) r = xs ! r"

definition ex_collab :: "int collab" where
  "ex_collab =
     \<lparr>cpp_size = cpp_sizeof,
      calc_bucket_size = (\<lambda>n. 4),
      calc_bucket_num = (\<lambda>k n. sum_list (map unat k) mod n),
      get_hash_key = (\<lambda>cols r. map (\<lambda>col. word_of_int (cell col r)) cols),
      max_serialized_size = col_size,
      allocate = (\<lambda>n. True),
      prepare_map_index = (\<lambda>ps n. ps\<lparr>build_index := resize (build_index ps) (n + 8) 0,
                                        probe_index := resize (probe_index ps) (n + 8) 0,
                                        probe_next := resize (probe_next ps) n 0,
                                        probe_match_index := resize (probe_match_index ps) n 0\<rparr>),
      encode_key = (\<lambda>ty cols r. map (\<lambda>col. word_of_int (cell col r)) cols)\<rparr>"

text \<open>A probe state with three candidate pairs over two probe rows and two build rows.\<close>

definition ex_probe_state :: "int HashTableProbeState" where
  "ex_probe_state =
     new_probe_state\<lparr>build_index := [1, 2, 1], probe_index := [0, 0, 1],
                     build_match_index := [1, 0, 0], probe_match_index := [0, 0]\<rparr>"

text \<open>Two candidate batches over the probe rows 0 and 1.\<close>

definition ex_batches :: "candidate_batch list" where
  "ex_batches = [([0, 0, 1], [1, 2, 1], [1, 1, 0]), ([1, 1], [2, 1], [1, 1])]"

text \<open>
  The table items as \<^verbatim>\<open>build\<close> leaves them before the layout's build routine, for three
  build rows with the keys (7, 1), (8, NULL) and (7, 1) and two buckets; and a probe state for
  three probe rows with the keys (7, 1), (7, NULL) and (9, 2).
\<close>

definition ex_items :: "int JoinHashTableItems" where
  "ex_items =
     (new_table_items (ex_param INNER_JOIN))
       \<lparr>key_columns := [FixedColumn [0, 7, 8, 7], NullableColumn [0, 1, 2, 1] [0, 0, 1, 0]],
        join_keys := ex_join_keys, row_count := 3, bucket_size := 2,
        first := [0, 0], next := [0, 0, 0, 0]\<rparr>"





section \<open>Properties of the key layout selection\<close>

lemma get_size_fixed: "t \<in> fixed_and_contiguous_types \<Longrightarrow> get_size_of_fixed_and_contiguous_type sz t = sz t"
  by (cases t) (simp_all add: fixed_and_contiguous_types_def)

lemma get_size_other: "t \<notin> fixed_and_contiguous_types \<Longrightarrow> get_size_of_fixed_and_contiguous_type sz t = 0"
  by (cases t) (simp_all add: fixed_and_contiguous_types_def)

lemma total_all_fixed:
  assumes "\<And>t. 0 < sz t"
  shows "list_all (\<lambda>k. key_type k \<in> fixed_and_contiguous_types) ks \<Longrightarrow>
     total_size_in_byte sz ks acc = Some (acc + sum_list (map (packed_width sz) ks))"
proof (induction ks arbitrary: acc)
  case Nil
  then show ?case by simp
next
  case (Cons k ks)
  then show ?case using assms by (simp add: get_size_fixed packed_width_def Let_def)
qed

lemma total_some_other:
  "\<not> list_all (\<lambda>k. key_type k \<in> fixed_and_contiguous_types) ks \<Longrightarrow> total_size_in_byte sz ks acc = None"
  by (induction ks arbitrary: acc) (auto simp add: get_size_other Let_def)

lemma key_type_drop_null_safe: "map key_type (drop_null_safe keys cols) = map key_type keys"
  by (rule nth_equalityI) (simp_all add: drop_null_safe_def)

lemma list_all_drop_null_safe:
  "list_all (\<lambda>k. key_type k \<in> S) (drop_null_safe keys cols) = list_all (\<lambda>k. key_type k \<in> S) keys"
proof -
  have "list_all (\<lambda>k. key_type k \<in> S) ks = list_all (\<lambda>t. t \<in> S) (map key_type ks)"
    for ks :: "JoinKeyDesc list"
    by (simp add: list_all_iff)
  from this [of "drop_null_safe keys cols"] this [of keys] show ?thesis
    by (simp only: key_type_drop_null_safe)
qed


lemma cpp_sizeof_pos: "0 < cpp_sizeof t"
  by (cases t) simp_all

text \<open>
  Claim C10. With positive type sizes, exactly BOOLEAN, TINYINT, SMALLINT, INT, BIGINT, FLOAT,
  DOUBLE, DATE and DATETIME have a non-zero fixed width, which is the size of their C++ type;
  LARGEINT, DECIMALV2, DECIMAL32, DECIMAL64, DECIMAL128, CHAR and VARCHAR have width 0. On
  the path for several keys or a null-safe key, keys of fixed-width types add up to the sum of
  their widths plus one byte for each null-safe key, and one key of any other type makes the
  selector return the slice layout.
\<close>

theorem fixed_width_classification:
  assumes "\<forall>t. 0 < sz t"
  shows "((0 < get_size_of_fixed_and_contiguous_type sz t) = (t \<in> fixed_and_contiguous_types)) \<and>
         (t \<in> fixed_and_contiguous_types \<longrightarrow> get_size_of_fixed_and_contiguous_type sz t = sz t) \<and>
         (\<forall>u \<in> {TYPE_LARGEINT, TYPE_DECIMALV2, TYPE_DECIMAL32, TYPE_DECIMAL64, TYPE_DECIMAL128,
                 TYPE_CHAR, TYPE_VARCHAR}. get_size_of_fixed_and_contiguous_type sz u = 0) \<and>
         (\<not> (length keys = 1 \<and> \<not> is_null_safe_equal (drop_null_safe keys cols ! 0)) \<longrightarrow>
            (if list_all (\<lambda>k. key_type k \<in> fixed_and_contiguous_types) keys
             then total_size_in_byte sz (drop_null_safe keys cols) 0
                    = Some (sum_list (map (packed_width sz) (drop_null_safe keys cols)))
             else fst (choose_join_hash_map sz keys cols) = slice))"
proof -
  have pos: "\<And>t. 0 < sz t" using assms by simp
  have 1: "(0 < get_size_of_fixed_and_contiguous_type sz t) = (t \<in> fixed_and_contiguous_types)"
    using pos [of t] get_size_fixed [of t sz] get_size_other [of t sz]
    by (cases "t \<in> fixed_and_contiguous_types") simp_all
  have 2: "t \<in> fixed_and_contiguous_types \<longrightarrow> get_size_of_fixed_and_contiguous_type sz t = sz t"
    by (simp add: get_size_fixed)
  have 3: "\<forall>u \<in> {TYPE_LARGEINT, TYPE_DECIMALV2, TYPE_DECIMAL32, TYPE_DECIMAL64, TYPE_DECIMAL128,
                 TYPE_CHAR, TYPE_VARCHAR}. get_size_of_fixed_and_contiguous_type sz u = 0"
    by simp
  have len: "length (drop_null_safe keys cols) = length keys"
    by (simp add: drop_null_safe_def)
  have 4: "fst (choose_join_hash_map sz keys cols) = slice"
    if a: "\<not> (length keys = 1 \<and> \<not> is_null_safe_equal (drop_null_safe keys cols ! 0))"
      and b: "\<not> list_all (\<lambda>k. key_type k \<in> fixed_and_contiguous_types) keys"
  proof -
    from b have "total_size_in_byte sz (drop_null_safe keys cols) 0 = None"
      by (simp add: total_some_other list_all_drop_null_safe)
    with a len show ?thesis
      by (auto simp add: choose_join_hash_map_def Let_def)
  qed
  have 5: "total_size_in_byte sz (drop_null_safe keys cols) 0
           = Some (sum_list (map (packed_width sz) (drop_null_safe keys cols)))"
    if "list_all (\<lambda>k. key_type k \<in> fixed_and_contiguous_types) keys"
    using that total_all_fixed [where sz = sz and ks = "drop_null_safe keys cols" and acc = 0] pos
    by (simp add: list_all_drop_null_safe)
  from 1 2 3 4 5 show ?thesis by simp
qed

theorem fixed_width_classification_witness:
  "(\<forall>t. 0 < cpp_sizeof t) \<and>
   0 < get_size_of_fixed_and_contiguous_type cpp_sizeof TYPE_BIGINT \<and>
   get_size_of_fixed_and_contiguous_type cpp_sizeof TYPE_LARGEINT = 0 \<and>
   fst (choose_join_hash_map cpp_sizeof
          [\<lparr>key_type = TYPE_INT, is_null_safe_equal = False\<rparr>,
           \<lparr>key_type = TYPE_DECIMAL64, is_null_safe_equal = False\<rparr>]
          [FixedColumn [0::nat, 5], FixedColumn [0, 7]]) = slice"
proof -
  have h: "\<forall>t. 0 < cpp_sizeof t" by (simp add: cpp_sizeof_pos)
  show ?thesis
    using h fixed_width_classification [OF h, of TYPE_BIGINT
          "[\<lparr>key_type = TYPE_INT, is_null_safe_equal = False\<rparr>,
           \<lparr>key_type = TYPE_DECIMAL64, is_null_safe_equal = False\<rparr>]"
          "[FixedColumn [0::nat, 5], FixedColumn [0, 7]]"]
    by (simp add: fixed_and_contiguous_types_def)
qed

text \<open>
  Claim C4, as amended. On the path for several keys or a null-safe key, when every key type
  has a fixed width the layout follows from the packed total, which is the sum of the type
  widths plus one byte for each key that is still null-safe: \<open>fixed32\<close> up to 4 bytes,
  \<open>fixed64\<close> up to 8, \<open>fixed128\<close> up to 16, \<open>slice\<close> above; and the layout is
  \<open>slice\<close> when some key type has no fixed width.
\<close>

theorem packed_layout_by_total_width:
  assumes "\<forall>t. 0 < sz t"
    and "\<not> (length keys = 1 \<and> \<not> is_null_safe_equal (drop_null_safe keys cols ! 0))"
  shows "fst (choose_join_hash_map sz keys cols) =
           (if list_all (\<lambda>k. key_type k \<in> fixed_and_contiguous_types) keys
            then (let tot = sum_list (map (packed_width sz) (drop_null_safe keys cols)) in
                  if tot \<le> 4 then fixed32
                  else if tot \<le> 8 then fixed64
                  else if tot \<le> 16 then fixed128
                  else slice)
            else slice)"
proof (cases "list_all (\<lambda>k. key_type k \<in> fixed_and_contiguous_types) keys")
  case True
  have pos: "\<And>t. 0 < sz t" using assms(1) by simp
  have len: "length (drop_null_safe keys cols) = length keys"
    by (simp add: drop_null_safe_def)
  have "total_size_in_byte sz (drop_null_safe keys cols) 0
           = Some (sum_list (map (packed_width sz) (drop_null_safe keys cols)))"
    using True total_all_fixed [where sz = sz and ks = "drop_null_safe keys cols" and acc = 0] pos
    by (simp add: list_all_drop_null_safe)
  with True assms(2) len show ?thesis
    by (auto simp add: choose_join_hash_map_def Let_def)
next
  case False
  have len: "length (drop_null_safe keys cols) = length keys"
    by (simp add: drop_null_safe_def)
  from False have "total_size_in_byte sz (drop_null_safe keys cols) 0 = None"
    by (simp add: total_some_other list_all_drop_null_safe)
  with False assms(2) len show ?thesis
    by (auto simp add: choose_join_hash_map_def Let_def)
qed

text \<open>
  Claim C4 as stated fails for a single null-safe INT key whose build column holds a NULL: the
  width of the key type is 4 bytes, but the selector counts 5 and picks \<open>fixed64\<close>.
\<close>

theorem packed_layout_counterexample:
  "get_size_of_fixed_and_contiguous_type cpp_sizeof TYPE_INT = 4 \<and>
   fst (choose_join_hash_map cpp_sizeof [\<lparr>key_type = TYPE_INT, is_null_safe_equal = True\<rparr>]
          [NullableColumn [0::nat, 0] [0, 1]]) = fixed64"
  by (simp add: choose_join_hash_map_def drop_null_safe_def Let_def)

theorem packed_layout_by_total_width_witness:
  "(\<forall>t. 0 < cpp_sizeof t) \<and>
   fst (choose_join_hash_map cpp_sizeof
          [\<lparr>key_type = TYPE_INT, is_null_safe_equal = False\<rparr>,
           \<lparr>key_type = TYPE_SMALLINT, is_null_safe_equal = True\<rparr>]
          [FixedColumn [0::nat, 5], NullableColumn [0, 7] [0, 1]]) = fixed64"
proof -
  have h: "\<forall>t. 0 < cpp_sizeof t" by (simp add: cpp_sizeof_pos)
  have d: "drop_null_safe [\<lparr>key_type = TYPE_INT, is_null_safe_equal = False\<rparr>,
           \<lparr>key_type = TYPE_SMALLINT, is_null_safe_equal = True\<rparr>]
          [FixedColumn [0::nat, 5], NullableColumn [0, 7] [0, 1]] =
      [\<lparr>key_type = TYPE_INT, is_null_safe_equal = False\<rparr>,
           \<lparr>key_type = TYPE_SMALLINT, is_null_safe_equal = True\<rparr>]"
    by (simp add: drop_null_safe_def upt_rec)
  show ?thesis
    using h packed_layout_by_total_width [OF h, of
          "[\<lparr>key_type = TYPE_INT, is_null_safe_equal = False\<rparr>,
           \<lparr>key_type = TYPE_SMALLINT, is_null_safe_equal = True\<rparr>]"
          "[FixedColumn [0::nat, 5], NullableColumn [0, 7] [0, 1]]"]
    by (simp add: d fixed_and_contiguous_types_def packed_width_def)
qed

section \<open>Properties of table creation\<close>

lemma fold_probe_slot_flags [simp]:
  "left_to_nullable (fold (create_probe_slot p) ss it) = left_to_nullable it"
  "right_to_nullable (fold (create_probe_slot p) ss it) = right_to_nullable it"
  by (induction ss arbitrary: it) (simp_all add: create_probe_slot_def)

lemma fold_probe_tuple_flags [simp]:
  "left_to_nullable (fold (create_probe_tuple p) ts it) = left_to_nullable it"
  "right_to_nullable (fold (create_probe_tuple p) ts it) = right_to_nullable it"
  by (induction ts arbitrary: it) (simp_all add: create_probe_tuple_def Let_def)

lemma fold_build_slot_flags [simp]:
  "left_to_nullable (fold (create_build_slot d p) ss it) = left_to_nullable it"
  "right_to_nullable (fold (create_build_slot d p) ss it) = right_to_nullable it"
  by (induction ss arbitrary: it) (simp_all add: create_build_slot_def Let_def)

lemma fold_build_tuple_flags [simp]:
  "left_to_nullable (fold (create_build_tuple d p) ts it) = left_to_nullable it"
  "right_to_nullable (fold (create_build_tuple d p) ts it) = right_to_nullable it"
  by (induction ts arbitrary: it) (simp_all add: create_build_tuple_def Let_def)

text \<open>
  Claim C7. After \<^verbatim>\<open>create\<close>, \<open>left_to_nullable\<close> is set exactly for RIGHT_OUTER,
  RIGHT_SEMI, RIGHT_ANTI and FULL_OUTER joins, and \<open>right_to_nullable\<close> exactly for
  LEFT_OUTER, LEFT_SEMI, LEFT_ANTI, NULL_AWARE_LEFT_ANTI and FULL_OUTER joins; so FULL_OUTER
  sets both and every other join type sets neither.
\<close>

theorem nullability_promotion_flags:
  "left_to_nullable (table_items (create dflt param)) =
     (param_join_type param \<in> {RIGHT_OUTER_JOIN, RIGHT_SEMI_JOIN, RIGHT_ANTI_JOIN, FULL_OUTER_JOIN}) \<and>
   right_to_nullable (table_items (create dflt param)) =
     (param_join_type param \<in> {LEFT_OUTER_JOIN, LEFT_SEMI_JOIN, LEFT_ANTI_JOIN,
                                  NULL_AWARE_LEFT_ANTI_JOIN, FULL_OUTER_JOIN})"
  by (cases "param_join_type param")
     (simp_all add: create_def Let_def set_to_nullable_def new_table_items_def)

section \<open>Properties of appending build batches\<close>

lemma col_size_col_append: "col_size (col_append d s n) = col_size d + min (col_size s) n"
  by (cases d; cases s) simp_all

lemma col_size_nullable_create: "col_size (nullable_create c ns) = col_size c"
  by (cases c) simp_all

lemma chunk_ok_col:
  assumes "chunk_ok bslots chunk" and "i < length bslots"
  shows "col_size (get_column_by_slot_id chunk (slot_id (slot (bslots ! i)))) = num_rows chunk"
proof -
  from assms have "case map_of (slot_id_to_index chunk) (slot_id (slot (bslots ! i))) of
                      None \<Rightarrow> False
                    | Some j \<Rightarrow> j < length (columns chunk) \<and> col_size (columns chunk ! j) = num_rows chunk"
    by (simp add: chunk_ok_def list_all_length)
  then show ?thesis
    by (simp add: get_column_by_slot_id_def split: option.splits)
qed

lemma append_build_column_step:
  assumes "chunk_ok (build_slots items) chunk" and "i < length (build_slots items)" and "i < length cols"
  shows "\<exists>c. append_build_column items chunk i cols = cols[i := c]
             \<and> col_size c = col_size (cols ! i) + num_rows chunk"
proof -
  let ?col = "get_column_by_slot_id chunk (slot_id (slot (build_slots items ! i)))"
  have sz: "col_size ?col = num_rows chunk"
    by (rule chunk_ok_col [OF assms(1,2)])
  show ?thesis
  proof (cases "is_nullable (cols ! i) \<or> \<not> is_nullable ?col")
    case True
    then have "append_build_column items chunk i cols = cols[i := col_append (cols ! i) ?col (num_rows chunk)]"
      by (auto simp add: append_build_column_def Let_def)
    moreover have "col_size (col_append (cols ! i) ?col (num_rows chunk)) = col_size (cols ! i) + num_rows chunk"
      by (simp add: col_size_col_append sz)
    ultimately show ?thesis by blast
  next
    case False
    let ?w = "nullable_create (cols ! i) (replicate (col_size (cols ! i)) 0)"
    from False have "append_build_column items chunk i cols = cols[i := col_append ?w ?col (num_rows chunk)]"
      by (auto simp add: append_build_column_def Let_def)
    moreover have "col_size (col_append ?w ?col (num_rows chunk)) = col_size (cols ! i) + num_rows chunk"
      by (simp add: col_size_col_append col_size_nullable_create sz)
    ultimately show ?thesis by blast
  qed
qed

lemma append_build_columns_loop:
  assumes ok: "chunk_ok (build_slots items) chunk"
  shows "k \<le> length (build_slots items) \<Longrightarrow> k \<le> length cols \<Longrightarrow>
     length (fold (append_build_column items chunk) [0..<k] cols) = length cols \<and>
     (\<forall>j<k. col_size (fold (append_build_column items chunk) [0..<k] cols ! j)
               = col_size (cols ! j) + num_rows chunk) \<and>
     (\<forall>j\<ge>k. fold (append_build_column items chunk) [0..<k] cols ! j = cols ! j)"
proof (induction k)
  case 0
  then show ?case by simp
next
  case (Suc k)
  let ?r = "fold (append_build_column items chunk) [0..<k] cols"
  from Suc have ih: "length ?r = length cols"
      "\<forall>j<k. col_size (?r ! j) = col_size (cols ! j) + num_rows chunk"
      "\<forall>j\<ge>k. ?r ! j = cols ! j" by simp_all
  from Suc.prems ih(1) have kr: "k < length ?r" and ks: "k < length (build_slots items)" by simp_all
  from append_build_column_step [OF ok ks kr] obtain c where
    c: "append_build_column items chunk k ?r = ?r[k := c]"
       "col_size c = col_size (?r ! k) + num_rows chunk" by blast
  have f: "fold (append_build_column items chunk) [0..<Suc k] cols = ?r[k := c]"
    by (simp add: c(1))
  show ?case
    unfolding f using ih kr c(2)
    by (auto simp add: nth_list_update less_Suc_eq)
qed

lemma fold_tuple_entry_frame [simp]:
  "columns (build_chunk (fold (append_tuple_entry chunk) tids it)) = columns (build_chunk it)"
  "row_count (fold (append_tuple_entry chunk) tids it) = row_count it"
  "build_slots (fold (append_tuple_entry chunk) tids it) = build_slots it"
  "build_column_count (fold (append_tuple_entry chunk) tids it) = build_column_count it"
  by (induction tids arbitrary: it)
     (simp_all add: append_tuple_entry_def append_tuple_column_def Let_def)

lemma append_chunk_inv:
  assumes inv: "build_inv ht n" and ok: "chunk_ok (build_slots (table_items ht)) chunk"
  shows "build_inv (append_chunk ht chunk) (n + num_rows chunk) \<and>
         build_slots (table_items (append_chunk ht chunk)) = build_slots (table_items ht)"
proof -
  let ?items = "table_items ht"
  let ?cols = "columns (build_chunk ?items)"
  let ?k = "build_column_count ?items"
  let ?r = "fold (append_build_column ?items chunk) [0..<?k] ?cols"
  from inv have l: "length ?cols = ?k" "length (build_slots ?items) = ?k"
    and sz: "\<forall>c \<in> set ?cols. col_size c = n + 1"
    and rc: "row_count ?items = n mod 2 ^ 32"
    by (simp_all add: build_inv_def Let_def)
  from append_build_columns_loop [OF ok, of ?k ?cols] l
  have r: "length ?r = length ?cols"
      "\<forall>j<?k. col_size (?r ! j) = col_size (?cols ! j) + num_rows chunk" by simp_all
  have "\<forall>c \<in> set ?r. col_size c = n + num_rows chunk + 1"
  proof
    fix c assume "c \<in> set ?r"
    then obtain j where j: "j < length ?r" "c = ?r ! j" by (auto simp add: in_set_conv_nth)
    with r l have "col_size c = col_size (?cols ! j) + num_rows chunk" by simp
    moreover from j r l sz have "col_size (?cols ! j) = n + 1" by simp
    ultimately show "col_size c = n + num_rows chunk + 1" by simp
  qed
  with r(1) l rc show ?thesis
    by (simp add: build_inv_def append_chunk_def Let_def mod_add_left_eq)
qed

lemma append_chunks_inv:
  "build_inv ht n \<Longrightarrow> \<forall>chunk \<in> set batches. chunk_ok (build_slots (table_items ht)) chunk \<Longrightarrow>
   build_inv (append_chunks ht batches) (n + sum_list (map num_rows batches))"
proof (induction batches arbitrary: ht n)
  case Nil
  then show ?case by (simp add: append_chunks_def)
next
  case (Cons chunk batches)
  from append_chunk_inv [of ht n chunk] Cons.prems
  have s: "build_inv (append_chunk ht chunk) (n + num_rows chunk)"
    "build_slots (table_items (append_chunk ht chunk)) = build_slots (table_items ht)" by simp_all
  from Cons.IH [OF s(1)] Cons.prems(2) s(2)
  have "build_inv (append_chunks (append_chunk ht chunk) batches)
          (n + num_rows chunk + sum_list (map num_rows batches))" by simp
  then show ?case by (simp add: append_chunks_def add.assoc)
qed

lemma create_build_slot_inv: "create_inv it \<Longrightarrow> create_inv (create_build_slot d p s it)"
  by (auto simp add: create_inv_def create_build_slot_def append_column_def Let_def)

lemma fold_build_slot_inv: "create_inv it \<Longrightarrow> create_inv (fold (create_build_slot d p) ss it)"
  by (induction ss arbitrary: it) (simp_all add: create_build_slot_inv)

lemma create_build_tuple_inv: "create_inv it \<Longrightarrow> create_inv (create_build_tuple d p t it)"
  using fold_build_slot_inv [of it d p "slots t"]
  by (simp add: create_build_tuple_def Let_def create_inv_def)

lemma fold_build_tuple_inv: "create_inv it \<Longrightarrow> create_inv (fold (create_build_tuple d p) ts it)"
  by (induction ts arbitrary: it) (simp_all add: create_build_tuple_inv)

lemma create_probe_slot_inv: "create_inv it \<Longrightarrow> create_inv (create_probe_slot p s it)"
  by (simp add: create_inv_def create_probe_slot_def)

lemma fold_probe_slot_inv: "create_inv it \<Longrightarrow> create_inv (fold (create_probe_slot p) ss it)"
  by (induction ss arbitrary: it) (simp_all add: create_probe_slot_inv)

lemma create_probe_tuple_inv: "create_inv it \<Longrightarrow> create_inv (create_probe_tuple p t it)"
  using fold_probe_slot_inv [of it p "slots t"]
  by (simp add: create_probe_tuple_def Let_def create_inv_def)

lemma fold_probe_tuple_inv: "create_inv it \<Longrightarrow> create_inv (fold (create_probe_tuple p) ts it)"
  by (induction ts arbitrary: it) (simp_all add: create_probe_tuple_inv)

lemma set_to_nullable_inv: "create_inv it \<Longrightarrow> create_inv (set_to_nullable it)"
  by (simp add: create_inv_def set_to_nullable_def)

lemma create_build_inv: "build_inv (create dflt param) 0"
proof -
  have "create_inv (table_items (create dflt param))"
    unfolding create_def Let_def
    apply simp
    apply (rule fold_build_tuple_inv)
    apply (rule fold_probe_tuple_inv)
    apply (simp add: create_inv_def set_to_nullable_def new_table_items_def empty_chunk_def)
    done
  then show ?thesis by (simp add: build_inv_def create_inv_def Let_def)
qed

text \<open>
  Claim C3, as amended. For every sequence of well-formed batches appended to a new table, the
  row count after the last append is the sum of the row counts of the batches (modulo
  \<open>2 ^ 32\<close>, the counter being a 32-bit unsigned integer, so the sum itself when it is
  below \<open>2 ^ 32\<close>), and every build column held in the build chunk has that sum plus one
  rows: the default row at index 0 and the appended rows.
\<close>

theorem append_row_count_and_column_lengths:
  assumes "\<forall>chunk \<in> set batches. chunk_ok (build_slots (table_items (create dflt param))) chunk"
  shows "row_count (table_items (append_chunks (create dflt param) batches))
           = sum_list (map num_rows batches) mod 2 ^ 32 \<and>
         (sum_list (map num_rows batches) < 2 ^ 32 \<longrightarrow>
            row_count (table_items (append_chunks (create dflt param) batches))
              = sum_list (map num_rows batches)) \<and>
         (\<forall>c \<in> set (columns (build_chunk (table_items (append_chunks (create dflt param) batches)))).
            col_size c = sum_list (map num_rows batches) + 1)"
  using append_chunks_inv [OF create_build_inv assms]
  by (simp add: build_inv_def Let_def)


lemma fold_build_slot_build:
  "build_slots (fold (create_build_slot d p) ss it)
     = build_slots it @ map (\<lambda>s. \<lparr>slot = s, need_output = slot_need_output p s\<rparr>) ss"
  "columns (build_chunk (fold (create_build_slot d p) ss it))
     = columns (build_chunk it) @ map (new_build_column d) ss"
  "row_desc (fold (create_build_slot d p) ss it) = row_desc it"
  by (induction ss arbitrary: it)
     (simp_all add: create_build_slot_def append_column_def Let_def new_build_column_def)

lemma fold_build_tuple_build:
  "build_slots (fold (create_build_tuple d p) ts it)
     = build_slots it @ map (\<lambda>s. \<lparr>slot = s, need_output = slot_need_output p s\<rparr>) (concat (map slots ts))"
  "columns (build_chunk (fold (create_build_tuple d p) ts it))
     = columns (build_chunk it) @ map (new_build_column d) (concat (map slots ts))"
  by (induction ts arbitrary: it)
     (simp_all add: create_build_tuple_def Let_def fold_build_slot_build)

lemma fold_probe_slot_build [simp]:
  "build_slots (fold (create_probe_slot p) ss it) = build_slots it"
  "build_chunk (fold (create_probe_slot p) ss it) = build_chunk it"
  by (induction ss arbitrary: it) (simp_all add: create_probe_slot_def)

lemma fold_probe_tuple_build [simp]:
  "build_slots (fold (create_probe_tuple p) ts it) = build_slots it"
  "build_chunk (fold (create_probe_tuple p) ts it) = build_chunk it"
  by (induction ts arbitrary: it) (simp_all add: create_probe_tuple_def Let_def)

lemma set_to_nullable_build [simp]:
  "build_slots (set_to_nullable it) = build_slots it"
  "build_chunk (set_to_nullable it) = build_chunk it"
  by (simp_all add: set_to_nullable_def)

lemma create_build_slots:
  "build_slots (table_items (create d p))
     = map (\<lambda>s. \<lparr>slot = s, need_output = slot_need_output p s\<rparr>)
         (concat (map slots (tuple_descriptors (build_row_desc p))))"
  by (simp add: create_def Let_def fold_build_tuple_build new_table_items_def)

lemma create_build_columns:
  "columns (build_chunk (table_items (create d p)))
     = map (new_build_column d) (concat (map slots (tuple_descriptors (build_row_desc p))))"
  by (simp add: create_def Let_def fold_build_tuple_build empty_chunk_def)


lemma create_build_column_count:
  "build_column_count (table_items (create d p))
     = length (concat (map slots (tuple_descriptors (build_row_desc p))))"
  using create_build_inv [of d p] create_build_columns [of d p]
  by (simp add: build_inv_def Let_def)

lemma create_row_count: "row_count (table_items (create d p)) = 0"
  using create_build_inv [of d p] by (simp add: build_inv_def Let_def)

lemma append_chunk_row_count:
  "row_count (table_items (append_chunk ht chunk))
     = (row_count (table_items ht) + num_rows chunk) mod 2 ^ 32"
  by (simp add: append_chunk_def Let_def)

lemma append_chunk_columns:
  "columns (build_chunk (table_items (append_chunk ht chunk)))
     = fold (append_build_column (table_items ht) chunk) [0..<build_column_count (table_items ht)]
         (columns (build_chunk (table_items ht)))"
  by (simp add: append_chunk_def Let_def)

lemma ex_create:
  "build_slots (table_items (create (0::int) (ex_param jt))) =
     [\<lparr>slot = \<lparr>slot_id = 10, slot_type = TYPE_INT, slot_is_nullable = False\<rparr>, need_output = True\<rparr>]"
  "columns (build_chunk (table_items (create (0::int) (ex_param jt)))) = [FixedColumn [0]]"
  "build_column_count (table_items (create (0::int) (ex_param jt))) = 1"
  by (simp_all add: create_build_slots create_build_columns create_build_column_count
        ex_param_def ex_build_tuple_def slot_need_output_def new_build_column_def)

text \<open>
  Claim C3 as stated fails: after one batch of one row is appended to a new table with one
  build slot, the row count is 1 and the build column has 2 rows.
\<close>

theorem column_length_counterexample:
  "row_count (table_items (append_chunks (create 0 (ex_param INNER_JOIN)) [ex_chunk [7]])) = 1 \<and>
   map col_size (columns (build_chunk (table_items
      (append_chunks (create 0 (ex_param INNER_JOIN)) [ex_chunk [7]])))) = [2]"
  by (simp add: append_chunks_def append_chunk_row_count append_chunk_columns create_row_count
        ex_create append_build_column_def get_column_by_slot_id_def num_rows_def ex_chunk_def)

theorem append_row_count_and_column_lengths_witness:
  "chunk_ok (build_slots (table_items (create (0::int) (ex_param INNER_JOIN)))) (ex_chunk [7, 8]) \<and>
   chunk_ok (build_slots (table_items (create (0::int) (ex_param INNER_JOIN)))) (ex_chunk [9]) \<and>
   row_count (table_items (append_chunks (create 0 (ex_param INNER_JOIN)) [ex_chunk [7, 8], ex_chunk [9]])) = 3 \<and>
   list_all (\<lambda>c. col_size c = 4)
     (columns (build_chunk (table_items
        (append_chunks (create 0 (ex_param INNER_JOIN)) [ex_chunk [7, 8], ex_chunk [9]]))))"
proof -
  have h: "\<forall>chunk \<in> set [ex_chunk [7, 8], ex_chunk [9]].
      chunk_ok (build_slots (table_items (create (0::int) (ex_param INNER_JOIN)))) chunk"
    by (simp add: chunk_ok_def ex_create ex_chunk_def num_rows_def)
  have n: "num_rows (ex_chunk [7, 8]) = 2" "num_rows (ex_chunk [9]) = 1"
    by (simp_all add: ex_chunk_def num_rows_def)
  show ?thesis
    using h append_row_count_and_column_lengths [OF h] by (simp add: n list_all_iff)
qed

section \<open>Properties of finalizing the table\<close>

lemma build_columns_bmi [simp]:
  "build_match_index (snd (build_columns c dcs start count st)) = build_match_index (snd st)"
  by (simp add: build_columns_def split: prod.splits)

lemma build_nullable_columns_bmi [simp]:
  "build_match_index (snd (build_nullable_columns c dcs ncs start count st)) = build_match_index (snd st)"
  by (simp add: build_nullable_columns_def Let_def split: prod.splits)

lemma fold_build_columns_bmi [simp]:
  "build_match_index (snd (fold (\<lambda>i. build_columns c dcs (f i) n) is st)) = build_match_index (snd st)"
  by (induction "is" arbitrary: st) simp_all

lemma fold_build_nullable_columns_bmi [simp]:
  "build_match_index (snd (fold (\<lambda>i. build_nullable_columns c dcs ncs (f i) n) is st)) = build_match_index (snd st)"
  by (induction "is" arbitrary: st) simp_all

lemma construct_hash_table_bmi [simp]:
  "build_match_index (snd (snd (construct_hash_table c n st))) = build_match_index (snd st)"
  by (simp add: construct_hash_table_def Let_def split: prod.splits)

lemma serialized_build_bmi [simp]:
  "build_match_index (snd (snd (serialized_build c n st))) = build_match_index (snd st)"
  by (auto simp add: serialized_build_def SerializedJoinBuildFunc_prepare_def split: prod.splits)

lemma build_bmi:
  assumes "keeps_build_match_index c"
  shows "build_match_index (probe_state (snd (build c chunk_size ht))) =
           (if needs_build_match_index (join_type (table_items ht))
            then (resize (build_match_index (probe_state ht)) ((row_count (table_items ht) + 1) mod 2 ^ 32) 0)[0 := 1]
            else build_match_index (probe_state ht))"
proof -
  have a: "build_match_index (prepare_map_index c ps n) = build_match_index ps" for ps n
    using assms by (simp add: keeps_build_match_index_def)
  have b: "build_match_index (snd (snd (layout_build c ty st))) = build_match_index (snd st)" for ty st
    by (simp add: layout_build_def split: prod.splits)
  have s: "build_match_index (snd (snd (serialized_build c n st))) = build_match_index (snd st)" for n st
    by simp
  obtain ty keys where ch: "choose_join_hash_map (cpp_size c) (join_keys (table_items ht)) (key_columns (table_items ht)) = (ty, keys)"
    by (cases "choose_join_hash_map (cpp_size c) (join_keys (table_items ht)) (key_columns (table_items ht))")
  show ?thesis
    unfolding build_def ch
    by (simp add: Let_def split_beta a b needs_build_match_index_def)
qed

lemma fold_probe_slot_misc [simp]:
  "join_type (fold (create_probe_slot p) ss it) = join_type it"
  "join_keys (fold (create_probe_slot p) ss it) = join_keys it"
  by (induction ss arbitrary: it) (simp_all add: create_probe_slot_def)

lemma fold_probe_tuple_misc [simp]:
  "join_type (fold (create_probe_tuple p) ts it) = join_type it"
  "join_keys (fold (create_probe_tuple p) ts it) = join_keys it"
  by (induction ts arbitrary: it) (simp_all add: create_probe_tuple_def Let_def)

lemma fold_build_slot_misc [simp]:
  "join_type (fold (create_build_slot d p) ss it) = join_type it"
  "join_keys (fold (create_build_slot d p) ss it) = join_keys it"
  by (induction ss arbitrary: it) (simp_all add: create_build_slot_def Let_def)

lemma fold_build_tuple_misc [simp]:
  "join_type (fold (create_build_tuple d p) ts it) = join_type it"
  "join_keys (fold (create_build_tuple d p) ts it) = join_keys it"
  by (induction ts arbitrary: it) (simp_all add: create_build_tuple_def Let_def)

lemma create_misc:
  "join_type (table_items (create d p)) = param_join_type p"
  "join_keys (table_items (create d p)) = param_join_keys p"
  "probe_state (create d p) = new_probe_state"
  "ht_need_create_tuple_columns (create d p) = param_need_create_tuple_columns p"
  by (simp_all add: create_def Let_def set_to_nullable_def new_table_items_def)

lemma fold_tuple_entry_misc [simp]:
  "join_type (fold (append_tuple_entry chunk) tids it) = join_type it"
  "join_keys (fold (append_tuple_entry chunk) tids it) = join_keys it"
  by (induction tids arbitrary: it)
     (simp_all add: append_tuple_entry_def Let_def)

lemma append_chunk_misc:
  "join_type (table_items (append_chunk ht chunk)) = join_type (table_items ht)"
  "join_keys (table_items (append_chunk ht chunk)) = join_keys (table_items ht)"
  "probe_state (append_chunk ht chunk) = probe_state ht"
  by (simp_all add: append_chunk_def Let_def)

lemma ex_table_fields:
  "join_type (table_items (ex_table jt kc)) = jt"
  "join_keys (table_items (ex_table jt kc)) = ex_join_keys"
  "key_columns (table_items (ex_table jt kc)) = kc"
  "row_count (table_items (ex_table jt kc)) = 2"
  "probe_state (ex_table jt kc) = new_probe_state"
  by (simp_all add: ex_table_def Let_def append_chunk_misc create_misc append_chunk_row_count
        create_row_count ex_param_def num_rows_def ex_chunk_def)

lemma ex_collab_keeps: "keeps_build_match_index ex_collab"
  by (simp add: keeps_build_match_index_def ex_collab_def)

text \<open>
  Claim C5, as amended. When \<^verbatim>\<open>build\<close> runs for a RIGHT_OUTER, FULL_OUTER, RIGHT_SEMI
  or RIGHT_ANTI join on a table whose \<open>build_match_index\<close> is still empty, the array gets
  row count plus one entries; entry 0, which belongs to the reserved row index 0, is set to 1,
  and every other entry is zero.
\<close>

theorem build_match_index_after_build:
  assumes "needs_build_match_index (join_type (table_items ht))"
    and "keeps_build_match_index c"
    and "build_match_index (probe_state ht) = []"
    and "row_count (table_items ht) + 1 < 2 ^ 32"
  shows "build_match_index (probe_state (snd (build c chunk_size ht)))
           = 1 # replicate (row_count (table_items ht)) 0"
  using assms(1,3,4) build_bmi [OF assms(2), of chunk_size ht]
  by (simp add: resize_def)

lemma replicate_numeral_3: "replicate 3 x = [x, x, x]"
  by (simp add: numeral_3_eq_3)

lemma replicate_numeral_2: "replicate 2 x = [x, x]"
  by (simp add: numeral_2_eq_2)

text \<open>
  Claim C5 as stated fails: after \<^verbatim>\<open>build\<close> on a RIGHT_OUTER table of two rows the
  array is \<open>[1, 0, 0]\<close>, so its first entry is not zero.
\<close>

theorem build_match_index_counterexample:
  "build_match_index (probe_state (snd (build ex_collab 4096
      (ex_table RIGHT_OUTER_JOIN [FixedColumn [0, 7, 8], FixedColumn [0, 1, 2]])))) = [1, 0, 0]"
  using build_bmi [OF ex_collab_keeps, of 4096 "ex_table RIGHT_OUTER_JOIN [FixedColumn [0, 7, 8], FixedColumn [0, 1, 2]]"]
  by (simp add: ex_table_fields needs_build_match_index_def new_probe_state_def resize_def
        replicate_numeral_3)

theorem build_match_index_after_build_witness:
  "needs_build_match_index (join_type (table_items (ex_table RIGHT_SEMI_JOIN [FixedColumn [0, 7, 8], FixedColumn [0, 1, 2]]))) \<and>
   keeps_build_match_index ex_collab \<and>
   build_match_index (probe_state (ex_table RIGHT_SEMI_JOIN [FixedColumn [0, 7, 8], FixedColumn [0, 1, 2]])) = [] \<and>
   build_match_index (probe_state (snd (build ex_collab 4096
      (ex_table RIGHT_SEMI_JOIN [FixedColumn [0, 7, 8], FixedColumn [0, 1, 2]])))) = [1, 0, 0]"
proof -
  let ?ht = "ex_table RIGHT_SEMI_JOIN [FixedColumn [0, 7, 8], FixedColumn [0, 1, 2]]"
  have 1: "needs_build_match_index (join_type (table_items ?ht))"
    by (simp add: ex_table_fields needs_build_match_index_def)
  have 3: "build_match_index (probe_state ?ht) = []"
    by (simp add: ex_table_fields new_probe_state_def)
  have 4: "row_count (table_items ?ht) + 1 < 2 ^ 32"
    by (simp add: ex_table_fields)
  show ?thesis
    using 1 3 ex_collab_keeps build_match_index_after_build [OF 1 ex_collab_keeps 3 4, of 4096]
    by (simp add: ex_table_fields replicate_numeral_2)
qed

section \<open>Properties of the duplicate and multiplicity correction\<close>

lemma mark_build_rows_Suc:
  "mark_build_rows bidx flt (Suc n) bmi =
     (if flt ! n = 1 then (mark_build_rows bidx flt n bmi)[bidx ! n := 1] else mark_build_rows bidx flt n bmi)"
  by (simp add: mark_build_rows_def)

lemma length_mark_build_rows [simp]: "length (mark_build_rows bidx flt n bmi) = length bmi"
  by (induction n) (simp_all add: mark_build_rows_Suc, simp add: mark_build_rows_def)

lemma nth_mark_build_rows:
  "r < length bmi \<Longrightarrow>
   mark_build_rows bidx flt n bmi ! r = (if \<exists>i<n. flt ! i = 1 \<and> bidx ! i = r then 1 else bmi ! r)"
proof (induction n)
  case 0
  then show ?case by (simp add: mark_build_rows_def)
next
  case (Suc n)
  let ?m = "mark_build_rows bidx flt n bmi"
  have ex: "(\<exists>i<Suc n. flt ! i = 1 \<and> bidx ! i = r)
              = ((\<exists>i<n. flt ! i = 1 \<and> bidx ! i = r) \<or> (flt ! n = 1 \<and> bidx ! n = r))"
    by (auto simp add: less_Suc_eq)
  show ?case
  proof (cases "flt ! n = 1")
    case True
    with Suc have "mark_build_rows bidx flt (Suc n) bmi ! r = (if r = bidx ! n then 1 else ?m ! r)"
      by (simp add: mark_build_rows_Suc nth_list_update)
    with Suc True show ?thesis unfolding ex by auto
  next
    case False
    with Suc show ?thesis unfolding ex by (simp add: mark_build_rows_Suc)
  qed
qed

lemma right_outer_loop:
  "fold (\<lambda>i (ps, flt).
             if flt ! i = 1
             then (ps\<lparr>build_match_index := (build_match_index ps)[build_index ps ! i := 1]\<rparr>, flt)
             else (ps, flt)) [0..<n] (ps, flt)
   = (ps\<lparr>build_match_index := mark_build_rows (build_index ps) flt n (build_match_index ps)\<rparr>, flt)"
proof (induction n)
  case 0
  then show ?case by (simp add: mark_build_rows_def)
next
  case (Suc n)
  then show ?case by (simp add: mark_build_rows_Suc)
qed

text \<open>
  Claim C9. For RIGHT_OUTER and RIGHT_ANTI joins \<^verbatim>\<open>remove_duplicate_index\<close> returns the
  filter it was given; the probe state changes in \<open>build_match_index\<close> only, where an entry
  is 1 if its row is the build row of an accepted candidate and is unchanged otherwise; and the
  two join types perform the same update.
\<close>

theorem right_outer_and_right_anti_frame:
  assumes "jt = RIGHT_OUTER_JOIN \<or> jt = RIGHT_ANTI_JOIN"
  shows "snd (remove_duplicate_index jt (ps, flt)) = flt \<and>
         fst (remove_duplicate_index jt (ps, flt))
           = ps\<lparr>build_match_index := build_match_index (fst (remove_duplicate_index jt (ps, flt)))\<rparr> \<and>
         length (build_match_index (fst (remove_duplicate_index jt (ps, flt))))
           = length (build_match_index ps) \<and>
         (\<forall>r<length (build_match_index ps).
            build_match_index (fst (remove_duplicate_index jt (ps, flt))) ! r =
              (if \<exists>i<length flt. flt ! i = 1 \<and> build_index ps ! i = r then 1
               else build_match_index ps ! r)) \<and>
         remove_duplicate_index RIGHT_OUTER_JOIN (ps, flt) = remove_duplicate_index RIGHT_ANTI_JOIN (ps, flt)"
  using assms
  by (auto simp add: remove_duplicate_index_for_right_outer_join_def
        remove_duplicate_index_for_right_anti_join_def right_outer_loop nth_mark_build_rows)

theorem right_outer_and_right_anti_frame_witness:
  "(RIGHT_ANTI_JOIN = RIGHT_OUTER_JOIN \<or> RIGHT_ANTI_JOIN = RIGHT_ANTI_JOIN) \<and>
   snd (remove_duplicate_index RIGHT_ANTI_JOIN (ex_probe_state, [0, 1, 0])) = [0, 1, 0] \<and>
   length (build_match_index (fst (remove_duplicate_index RIGHT_ANTI_JOIN (ex_probe_state, [0, 1, 0])))) = 3 \<and>
   build_match_index (fst (remove_duplicate_index RIGHT_ANTI_JOIN (ex_probe_state, [0, 1, 0]))) ! 2 = 1"
proof -
  have h: "RIGHT_ANTI_JOIN = RIGHT_OUTER_JOIN \<or> RIGHT_ANTI_JOIN = RIGHT_ANTI_JOIN" by simp
  have e: "\<exists>i<length [0, 1, 0 :: 8 word]. [0, 1, 0 :: 8 word] ! i = 1 \<and> build_index ex_probe_state ! i = 2"
    by (rule exI [of _ 1]) (simp add: ex_probe_state_def new_probe_state_def)
  have l: "length (build_match_index ex_probe_state) = 3"
    by (simp add: ex_probe_state_def new_probe_state_def)
  from right_outer_and_right_anti_frame [OF h, of ex_probe_state "[0, 1, 0]"] e l
  show ?thesis by simp
qed

section \<open>Properties of the LEFT_SEMI correction\<close>

lemma semi_arr_Suc: "semi_arr pidx (Suc n) mf = semi_step pidx n (semi_arr pidx n mf)"
  by (simp add: semi_arr_def)

lemma semi_arr_0: "semi_arr pidx 0 mf = mf"
  by (simp add: semi_arr_def)

lemma left_semi_loop:
  "fold (\<lambda>i (ps, flt).
             let p = probe_index ps ! i in
             if flt ! i = 1
             then (if probe_match_index ps ! p = 0
                   then (ps\<lparr>probe_match_index := (probe_match_index ps)[p := 1]\<rparr>, flt)
                   else (ps, flt[i := 0]))
             else (ps, flt)) [0..<n] (ps, flt)
   = (ps\<lparr>probe_match_index := fst (semi_arr (probe_index ps) n (probe_match_index ps, flt))\<rparr>,
      snd (semi_arr (probe_index ps) n (probe_match_index ps, flt)))"
proof (induction n)
  case 0
  then show ?case by (simp add: semi_arr_0)
next
  case (Suc n)
  obtain m f where mf: "semi_arr (probe_index ps) n (probe_match_index ps, flt) = (m, f)"
    by (cases "semi_arr (probe_index ps) n (probe_match_index ps, flt)")
  from Suc show ?case
    by (simp add: semi_arr_Suc mf semi_step_def Let_def)
qed

lemma semi_arr_inv:
  assumes "n \<le> length flt" and "\<forall>i<n. pidx ! i < length m"
  shows "length (fst (semi_arr pidx n (m, flt))) = length m \<and>
         length (snd (semi_arr pidx n (m, flt))) = length flt \<and>
         (\<forall>j. n \<le> j \<longrightarrow> snd (semi_arr pidx n (m, flt)) ! j = flt ! j) \<and>
         (\<forall>j<n. snd (semi_arr pidx n (m, flt)) ! j =
             (if flt ! j = 1 \<and> (m ! (pidx ! j) \<noteq> 0 \<or> (\<exists>k<j. pidx ! k = pidx ! j \<and> flt ! k = 1))
              then 0 else flt ! j)) \<and>
         (\<forall>p<length m. fst (semi_arr pidx n (m, flt)) ! p =
             (if m ! p = 0 \<and> (\<exists>k<n. pidx ! k = p \<and> flt ! k = 1) then 1 else m ! p))"
  using assms
proof (induction n)
  case 0
  then show ?case by (simp add: semi_arr_0)
next
  case (Suc n)
  obtain M F where mf: "semi_arr pidx n (m, flt) = (M, F)"
    by (cases "semi_arr pidx n (m, flt)")
  from Suc mf have ih:
    "length M = length m" "length F = length flt"
    "\<And>j. n \<le> j \<Longrightarrow> F ! j = flt ! j"
    "\<And>j. j < n \<Longrightarrow> F ! j =
             (if flt ! j = 1 \<and> (m ! (pidx ! j) \<noteq> 0 \<or> (\<exists>k<j. pidx ! k = pidx ! j \<and> flt ! k = 1))
              then 0 else flt ! j)"
    "\<And>p. p < length m \<Longrightarrow> M ! p =
             (if m ! p = 0 \<and> (\<exists>k<n. pidx ! k = p \<and> flt ! k = 1) then 1 else m ! p)"
    by simp_all
  from Suc.prems have nlt: "n < length flt" and pn: "pidx ! n < length m" by simp_all
  have Fn: "F ! n = flt ! n" by (simp add: ih(3))
  have Mp: "M ! (pidx ! n) = 0 \<longleftrightarrow> m ! (pidx ! n) = 0 \<and> \<not> (\<exists>k<n. pidx ! k = pidx ! n \<and> flt ! k = 1)"
    using ih(5) [OF pn] by auto
  have ex: "(\<exists>k<Suc n. pidx ! k = p \<and> flt ! k = 1)
              = ((\<exists>k<n. pidx ! k = p \<and> flt ! k = 1) \<or> (pidx ! n = p \<and> flt ! n = 1))" for p
    by (auto simp add: less_Suc_eq)
  show ?case
  proof (cases "flt ! n = 1")
    case False
    then have s: "semi_arr pidx (Suc n) (m, flt) = (M, F)"
      by (simp add: semi_arr_Suc mf semi_step_def Fn)
    show ?thesis unfolding s using ih False
      by (auto simp add: less_Suc_eq)
  next
    case True
    show ?thesis
    proof (cases "M ! (pidx ! n) = 0")
      case z: True
      then have s: "semi_arr pidx (Suc n) (m, flt) = (M[pidx ! n := 1], F)"
        using True by (simp add: semi_arr_Suc mf semi_step_def Fn)
      have 4: "\<forall>j<Suc n. F ! j =
             (if flt ! j = 1 \<and> (m ! (pidx ! j) \<noteq> 0 \<or> (\<exists>k<j. pidx ! k = pidx ! j \<and> flt ! k = 1))
              then 0 else flt ! j)"
        using ih(4) Fn True z Mp by (auto simp add: less_Suc_eq)
      have 5: "\<forall>p<length m. M[pidx ! n := 1] ! p =
             (if m ! p = 0 \<and> (\<exists>k<Suc n. pidx ! k = p \<and> flt ! k = 1) then 1 else m ! p)"
      proof (intro allI impI)
        fix p assume p: "p < length m"
        show "M[pidx ! n := 1] ! p =
             (if m ! p = 0 \<and> (\<exists>k<Suc n. pidx ! k = p \<and> flt ! k = 1) then 1 else m ! p)"
        proof (cases "p = pidx ! n")
          case True
          with p ih(1) z Mp \<open>flt ! n = 1\<close> show ?thesis unfolding ex by simp
        next
          case False
          with p ih(1) ih(5) [OF p] show ?thesis unfolding ex by auto
        qed
      qed
      show ?thesis unfolding s using ih(1,2,3) 4 5 by simp
    next
      case nz: False
      then have s: "semi_arr pidx (Suc n) (m, flt) = (M, F[n := 0])"
        using True by (simp add: semi_arr_Suc mf semi_step_def Fn)
      have 3: "\<forall>j. Suc n \<le> j \<longrightarrow> F[n := 0] ! j = flt ! j"
        using ih(3) by simp
      have 4: "\<forall>j<Suc n. F[n := 0] ! j =
             (if flt ! j = 1 \<and> (m ! (pidx ! j) \<noteq> 0 \<or> (\<exists>k<j. pidx ! k = pidx ! j \<and> flt ! k = 1))
              then 0 else flt ! j)"
        using ih(4) ih(2) nlt True nz Mp by (auto simp add: less_Suc_eq nth_list_update)
      have 5: "\<forall>p<length m. M ! p =
             (if m ! p = 0 \<and> (\<exists>k<Suc n. pidx ! k = p \<and> flt ! k = 1) then 1 else m ! p)"
      proof (intro allI impI)
        fix p assume p: "p < length m"
        show "M ! p = (if m ! p = 0 \<and> (\<exists>k<Suc n. pidx ! k = p \<and> flt ! k = 1) then 1 else m ! p)"
        proof (cases "p = pidx ! n")
          case True
          with p nz Mp ih(5) [OF p] show ?thesis unfolding ex by auto
        next
          case False
          with p ih(5) [OF p] show ?thesis unfolding ex by auto
        qed
      qed
      show ?thesis unfolding s using ih(1,2) 3 4 5 by simp
    qed
  qed
qed

lemma in_take_zip:
  assumes "j \<le> length flt" and "length flt \<le> length pidx"
  shows "((p, v) \<in> set (take j (zip pidx flt))) = (\<exists>k<j. pidx ! k = p \<and> flt ! k = v)"
proof -
  have l: "length (take j (zip pidx flt)) = j" using assms by simp
  have "((p, v) \<in> set (take j (zip pidx flt))) = (\<exists>k<j. take j (zip pidx flt) ! k = (p, v))"
    unfolding in_set_conv_nth l by simp
  also have "\<dots> = (\<exists>k<j. pidx ! k = p \<and> flt ! k = v)"
    using assms by auto
  finally show ?thesis .
qed

lemma left_semi_batch:
  assumes ok: "batch_ok (length (probe_match_index ps)) (pidx, bidx, flt)"
  shows "\<exists>M F. apply_batch LEFT_SEMI_JOIN ps (pidx, bidx, flt)
                 = (ps\<lparr>probe_index := pidx, build_index := bidx, probe_match_index := M\<rparr>, F) \<and>
           length M = length (probe_match_index ps) \<and> length F = length flt \<and>
           (\<forall>j<length flt. F ! j =
             (if flt ! j = 1 \<and> (probe_match_index ps ! (pidx ! j) \<noteq> 0 \<or> (pidx ! j, 1) \<in> set (take j (zip pidx flt)))
              then 0 else flt ! j)) \<and>
           (\<forall>p<length M. (M ! p \<noteq> 0) = (probe_match_index ps ! p \<noteq> 0 \<or> (p, 1) \<in> set (zip pidx flt)))"
proof -
  let ?m = "probe_match_index ps"
  let ?r = "semi_arr pidx (length flt) (?m, flt)"
  from ok have len: "length flt \<le> length pidx" and rng: "\<forall>i<length flt. pidx ! i < length ?m"
    by (simp_all add: batch_ok_def list_all_length)
  from semi_arr_inv [of "length flt" flt pidx ?m] rng
  have inv: "length (fst ?r) = length ?m" "length (snd ?r) = length flt"
    "\<forall>j<length flt. snd ?r ! j =
             (if flt ! j = 1 \<and> (?m ! (pidx ! j) \<noteq> 0 \<or> (\<exists>k<j. pidx ! k = pidx ! j \<and> flt ! k = 1))
              then 0 else flt ! j)"
    "\<forall>p<length ?m. fst ?r ! p =
             (if ?m ! p = 0 \<and> (\<exists>k<length flt. pidx ! k = p \<and> flt ! k = 1) then 1 else ?m ! p)"
    by simp_all
  have a: "apply_batch LEFT_SEMI_JOIN ps (pidx, bidx, flt)
                 = (ps\<lparr>probe_index := pidx, build_index := bidx, probe_match_index := fst ?r\<rparr>, snd ?r)"
    by (simp add: apply_batch_def remove_duplicate_index_for_left_semi_join_def left_semi_loop)
  have c: "\<forall>j<length flt. snd ?r ! j =
             (if flt ! j = 1 \<and> (?m ! (pidx ! j) \<noteq> 0 \<or> (pidx ! j, 1) \<in> set (take j (zip pidx flt)))
              then 0 else flt ! j)"
    using inv(3) len by (simp add: in_take_zip)
  have z: "take (length flt) (zip pidx flt) = zip pidx flt" using len by simp
  have d: "\<forall>p<length (fst ?r). (fst ?r ! p \<noteq> 0) = (?m ! p \<noteq> 0 \<or> (p, 1) \<in> set (zip pidx flt))"
    using inv(4) inv(1) in_take_zip [of "length flt" flt pidx _ 1, OF le_refl len]
    unfolding z by auto
  from a inv(1,2) c d show ?thesis by blast
qed

lemma candidates_Cons:
  "candidates ((pidx, bidx, flt) # bs) = zip pidx flt @ candidates bs"
  by (simp add: candidates_def)

lemma candidates_range:
  "list_all (batch_ok n) batches \<Longrightarrow> (p, f) \<in> set (candidates batches) \<Longrightarrow> p < n"
proof (induction batches)
  case Nil
  then show ?case by (simp add: candidates_def)
next
  case (Cons b bs)
  obtain pidx bidx flt where b: "b = (pidx, bidx, flt)" by (cases b)
  from Cons.prems(1) b have okb: "batch_ok n (pidx, bidx, flt)" by simp
  then have len: "length flt \<le> length pidx" and rng: "\<forall>i<length flt. pidx ! i < n"
    by (simp_all add: batch_ok_def list_all_length)
  from Cons.prems(2) b consider "(p, f) \<in> set (zip pidx flt)" | "(p, f) \<in> set (candidates bs)"
    by (auto simp add: candidates_Cons)
  then show ?case
  proof cases
    case 1
    then obtain k where "k < length flt" "pidx ! k = p"
      using len by (auto simp add: in_set_conv_nth)
    with rng show ?thesis by auto
  next
    case 2
    with Cons show ?thesis by simp
  qed
qed

lemma left_semi_batches:
  "list_all (batch_ok (length (probe_match_index ps))) batches \<Longrightarrow>
   length (concat (fst (run_batches LEFT_SEMI_JOIN ps batches))) = length (candidates batches) \<and>
   (\<forall>j<length (candidates batches).
      concat (fst (run_batches LEFT_SEMI_JOIN ps batches)) ! j =
        (if snd (candidates batches ! j) = 1 \<and>
            (probe_match_index ps ! fst (candidates batches ! j) \<noteq> 0 \<or>
             (fst (candidates batches ! j), 1) \<in> set (take j (candidates batches)))
         then 0 else snd (candidates batches ! j)))"
proof (induction batches arbitrary: ps)
  case Nil
  then show ?case by (simp add: candidates_def)
next
  case (Cons b bs)
  obtain pidx bidx flt where b: "b = (pidx, bidx, flt)" by (cases b)
  let ?m = "probe_match_index ps"
  from Cons.prems b have ok: "batch_ok (length ?m) (pidx, bidx, flt)"
    and oks: "list_all (batch_ok (length ?m)) bs" by simp_all
  from ok have len: "length flt \<le> length pidx" by (simp add: batch_ok_def)
  from left_semi_batch [OF ok] obtain M F where
    ap: "apply_batch LEFT_SEMI_JOIN ps (pidx, bidx, flt)
                 = (ps\<lparr>probe_index := pidx, build_index := bidx, probe_match_index := M\<rparr>, F)"
    and lM: "length M = length ?m" and lF: "length F = length flt"
    and Fj: "\<forall>j<length flt. F ! j =
             (if flt ! j = 1 \<and> (?m ! (pidx ! j) \<noteq> 0 \<or> (pidx ! j, 1) \<in> set (take j (zip pidx flt)))
              then 0 else flt ! j)"
    and Mp: "\<forall>p<length M. (M ! p \<noteq> 0) = (?m ! p \<noteq> 0 \<or> (p, 1) \<in> set (zip pidx flt))"
    by blast
  let ?ps1 = "ps\<lparr>probe_index := pidx, build_index := bidx, probe_match_index := M\<rparr>"
  let ?outs = "concat (fst (run_batches LEFT_SEMI_JOIN ?ps1 bs))"
  let ?c1 = "zip pidx flt"
  let ?cs = "candidates bs"
  have lc1: "length ?c1 = length flt" using len by simp
  from oks lM have oks1: "list_all (batch_ok (length (probe_match_index ?ps1))) bs" by simp
  from Cons.IH [OF oks1] have ih1: "length ?outs = length ?cs"
    and ih2: "\<forall>j<length ?cs. ?outs ! j =
        (if snd (?cs ! j) = 1 \<and> (M ! fst (?cs ! j) \<noteq> 0 \<or> (fst (?cs ! j), 1) \<in> set (take j ?cs))
         then 0 else snd (?cs ! j))"
    by simp_all
  have run: "concat (fst (run_batches LEFT_SEMI_JOIN ps (b # bs))) = F @ ?outs"
    by (simp add: b ap split: prod.splits)
  have cands: "candidates (b # bs) = ?c1 @ ?cs" by (simp add: b candidates_Cons)
  have 1: "length (F @ ?outs) = length (?c1 @ ?cs)" using lF lc1 ih1 by simp
  have 2: "(F @ ?outs) ! j =
        (if snd ((?c1 @ ?cs) ! j) = 1 \<and>
            (?m ! fst ((?c1 @ ?cs) ! j) \<noteq> 0 \<or> (fst ((?c1 @ ?cs) ! j), 1) \<in> set (take j (?c1 @ ?cs)))
         then 0 else snd ((?c1 @ ?cs) ! j))" if j: "j < length (?c1 @ ?cs)" for j
  proof (cases "j < length flt")
    case True
    have f1: "(F @ ?outs) ! j = F ! j" using True lF by (simp add: nth_append)
    have f2: "(?c1 @ ?cs) ! j = (pidx ! j, flt ! j)" using True lc1 len by (simp add: nth_append)
    have f3: "take j (?c1 @ ?cs) = take j ?c1" using True lc1 by simp
    from Fj True have "F ! j =
             (if flt ! j = 1 \<and> (?m ! (pidx ! j) \<noteq> 0 \<or> (pidx ! j, 1) \<in> set (take j (zip pidx flt)))
              then 0 else flt ! j)" by blast
    then show ?thesis unfolding f1 f2 f3 by simp
  next
    case False
    let ?j = "j - length flt"
    from False j lc1 have j': "?j < length ?cs" by simp
    obtain p f where pf: "?cs ! ?j = (p, f)" by (cases "?cs ! ?j")
    from j' pf have "(p, f) \<in> set ?cs" by (metis nth_mem)
    from candidates_range [OF oks this] lM have pM: "p < length M" by simp
    have e1: "(F @ ?outs) ! j = ?outs ! ?j" using False lF by (simp add: nth_append)
    have e2: "(?c1 @ ?cs) ! j = (p, f)" using False lc1 pf by (simp add: nth_append)
    have e3: "take j (?c1 @ ?cs) = ?c1 @ take ?j ?cs" using False lc1 by simp
    from ih2 j' pf have o: "?outs ! ?j =
        (if f = 1 \<and> (M ! p \<noteq> 0 \<or> (p, 1) \<in> set (take ?j ?cs)) then 0 else f)" by simp
    from Mp pM have mp: "(M ! p \<noteq> 0) = (?m ! p \<noteq> 0 \<or> (p, 1) \<in> set ?c1)" by blast
    show ?thesis unfolding e1 e2 e3 o mp by auto
  qed
  show ?case unfolding run cands using 1 2 by blast
qed

text \<open>
  Claim C2. Under a LEFT_SEMI join, when the candidate batches of a probe batch are corrected
  one after the other, starting from counters that are all zero: a candidate keeps its flag
  unless it is accepted (flag 1) and an earlier candidate of the same probe row, in this batch
  or a previous one, was accepted, in which case its flag is cleared. So the first accepted
  match of a probe row is kept, every later one is dropped, and no two surviving candidates
  have the same probe row.
\<close>

theorem left_semi_first_match_only:
  assumes "list_all (batch_ok (length (probe_match_index ps))) batches"
    and "list_all (\<lambda>m. m = 0) (probe_match_index ps)"
  shows "length (concat (fst (run_batches LEFT_SEMI_JOIN ps batches))) = length (candidates batches) \<and>
   (\<forall>j<length (candidates batches).
      concat (fst (run_batches LEFT_SEMI_JOIN ps batches)) ! j =
        (if snd (candidates batches ! j) = 1 \<and>
            (fst (candidates batches ! j), 1) \<in> set (take j (candidates batches))
         then 0 else snd (candidates batches ! j))) \<and>
   (\<forall>j k. j < length (candidates batches) \<and> k < length (candidates batches) \<and>
       fst (candidates batches ! j) = fst (candidates batches ! k) \<and>
       concat (fst (run_batches LEFT_SEMI_JOIN ps batches)) ! j = 1 \<and>
       concat (fst (run_batches LEFT_SEMI_JOIN ps batches)) ! k = 1 \<longrightarrow> j = k)"
proof -
  let ?cs = "candidates batches"
  let ?outs = "concat (fst (run_batches LEFT_SEMI_JOIN ps batches))"
  have zero: "probe_match_index ps ! fst (?cs ! j) = 0" if "j < length ?cs" for j
  proof -
    obtain p f where pf: "?cs ! j = (p, f)" by (cases "?cs ! j")
    with that have "(p, f) \<in> set ?cs" by (metis nth_mem)
    from candidates_range [OF assms(1) this] have "p < length (probe_match_index ps)" .
    with assms(2) have "probe_match_index ps ! p = 0" by (simp add: list_all_length)
    with pf show ?thesis by simp
  qed
  note b = left_semi_batches [OF assms(1)]
  from b have 1: "length ?outs = length ?cs" by (rule conjunct1)
  have 2: "?outs ! j =
        (if snd (?cs ! j) = 1 \<and> (fst (?cs ! j), 1) \<in> set (take j ?cs) then 0 else snd (?cs ! j))"
    if j: "j < length ?cs" for j
  proof -
    from b j have "?outs ! j =
        (if snd (?cs ! j) = 1 \<and>
            (probe_match_index ps ! fst (?cs ! j) \<noteq> 0 \<or> (fst (?cs ! j), 1) \<in> set (take j ?cs))
         then 0 else snd (?cs ! j))" by blast
    then show ?thesis by (simp only: zero [OF j] simp_thms)
  qed
  have lt: False if a: "a < b" "b < length ?cs" "fst (?cs ! a) = fst (?cs ! b)"
      "?outs ! a = 1" "?outs ! b = 1" for a b
  proof -
    from a(1,2) have al: "a < length ?cs" by simp
    from 2 [OF al] a(4) have sa: "snd (?cs ! a) = 1" by (simp split: if_splits)
    have ca: "?cs ! a = (fst (?cs ! b), 1)" using sa a(3) by (cases "?cs ! a") simp
    have "take b ?cs ! a \<in> set (take b ?cs)" using a(1,2) by (intro nth_mem) simp
    then have "?cs ! a \<in> set (take b ?cs)" using a(1) by simp
    with ca have "(fst (?cs ! b), 1) \<in> set (take b ?cs)" by simp
    with 2 [OF a(2)] a(5) show False by (simp split: if_splits)
  qed
  have 3: "j = k" if jk: "j < length ?cs" "k < length ?cs" "fst (?cs ! j) = fst (?cs ! k)"
      "?outs ! j = 1" "?outs ! k = 1" for j k
  proof (rule ccontr)
    assume "j \<noteq> k"
    then consider "j < k" | "k < j" by linarith
    then show False
    proof cases
      case 1
      from lt [OF 1 jk(2) jk(3) jk(4) jk(5)] show False .
    next
      case 2
      from lt [OF 2 jk(1) jk(3) [symmetric] jk(5) jk(4)] show False .
    qed
  qed
  from 1 2 3 show ?thesis by blast
qed

lemma ex_candidates: "candidates ex_batches = [(0, 1), (0, 1), (1, 0), (1, 1), (1, 1)]"
  by (simp add: candidates_def ex_batches_def)

theorem left_semi_first_match_only_witness:
  "list_all (batch_ok (length (probe_match_index ex_probe_state))) ex_batches \<and>
   list_all (\<lambda>m. m = 0) (probe_match_index ex_probe_state) \<and>
   length (concat (fst (run_batches LEFT_SEMI_JOIN ex_probe_state ex_batches))) = 5 \<and>
   concat (fst (run_batches LEFT_SEMI_JOIN ex_probe_state ex_batches)) ! 0 = 1 \<and>
   concat (fst (run_batches LEFT_SEMI_JOIN ex_probe_state ex_batches)) ! 1 = 0 \<and>
   concat (fst (run_batches LEFT_SEMI_JOIN ex_probe_state ex_batches)) ! 4 = 0"
proof -
  have h1: "list_all (batch_ok (length (probe_match_index ex_probe_state))) ex_batches"
    by (simp add: batch_ok_def ex_batches_def ex_probe_state_def new_probe_state_def)
  have h2: "list_all (\<lambda>m. m = 0) (probe_match_index ex_probe_state)"
    by (simp add: ex_probe_state_def new_probe_state_def)
  note t = left_semi_first_match_only [OF h1 h2, unfolded ex_candidates]
  from t have l: "length (concat (fst (run_batches LEFT_SEMI_JOIN ex_probe_state ex_batches))) = 5"
    by simp
  note a = t [THEN conjunct2, THEN conjunct1, rule_format]
  from a [of 0] have "concat (fst (run_batches LEFT_SEMI_JOIN ex_probe_state ex_batches)) ! 0 = 1"
    by simp
  moreover from a [of 1] have "concat (fst (run_batches LEFT_SEMI_JOIN ex_probe_state ex_batches)) ! 1 = 0"
    by simp
  moreover from a [of 4] have "concat (fst (run_batches LEFT_SEMI_JOIN ex_probe_state ex_batches)) ! 4 = 0"
    by simp
  ultimately show ?thesis using h1 h2 l by simp
qed

section \<open>Properties of the finishing step\<close>

lemma no_publication_in_handoff: "\<not> list_ex is_publication (handoff oper)"
  by (simp add: handoff_def list_ex_iff image_iff) auto

text \<open>
  Claim C8. In \<^verbatim>\<open>set_finishing\<close> a publication of the merged filters (to the runtime
  filter port and to the filter hub) happens exactly when \<^verbatim>\<open>add_partial_filters\<close> returns
  success with the value true, that is, reports the set of contributions complete; a failure or
  an incomplete set gives no publication. In every case the calls end with the probe-phase
  handoff to the builder and to the read-only probers, and the operator is finished.
\<close>

theorem publication_only_when_complete:
  fixes env :: "'f finishing_env"
  shows "list_ex is_publication (snd (set_finishing env oper))
     = (add_partial_filters env (driver_sequence oper) (ht_row_count env) (runtime_in_filters env)
          (runtime_bloom_filter_build_params env) (runtime_bloom_filters env) = Inr True) \<and>
   list_ex is_publication (snd (set_finishing env oper))
     = (Publish_runtime_filters (total_bloom_filters env) \<in> set (snd (set_finishing env oper)) \<and>
        Set_collector (plan_node_id oper) (total_in_filters env) (total_bloom_filters env)
          \<in> set (snd (set_finishing env oper))) \<and>
   suffix (handoff oper) (snd (set_finishing env oper)) \<and>
   is_finished (fst (set_finishing env oper))"
proof -
  let ?r = "add_partial_filters env (driver_sequence oper) (ht_row_count env) (runtime_in_filters env)
          (runtime_bloom_filter_build_params env) (runtime_bloom_filters env)"
  have h: "\<not> list_ex is_publication (handoff oper :: 'f event list)" by (rule no_publication_in_handoff)
  have s: "snd (set_finishing env oper) =
      [Build_ht, Create_runtime_filters,
           Add_partial_filters (driver_sequence oper) (ht_row_count env) (runtime_in_filters env)
             (runtime_bloom_filter_build_params env) (runtime_bloom_filters env)]
          @ (if ?r = Inr True then [Publish_runtime_filters (total_bloom_filters env),
                             Set_collector (plan_node_id oper) (total_in_filters env) (total_bloom_filters env)]
             else [])
          @ handoff oper"
    by (simp add: set_finishing_def Let_def handoff_def split: sum.splits bool.splits)
  have m: "Publish_runtime_filters b \<notin> set (handoff oper)" "Set_collector n i b \<notin> set (handoff oper)"
    for b :: 'f and n i
    by (auto simp add: handoff_def)
  show ?thesis
    unfolding s using h m
    by (auto simp add: suffix_def set_finishing_def Let_def)
qed

section \<open>Properties of the opaque-bytes build and lookup\<close>

lemma chain_is_update: "r \<notin> set xs \<Longrightarrow> chain_is (nxt[r := v]) x xs = chain_is nxt x xs"
proof (induction xs arbitrary: x)
  case Nil
  show ?case by simp
next
  case (Cons a xs)
  from Cons.prems have ra: "r \<noteq> a" and rx: "r \<notin> set xs" by simp_all
  show ?case
  proof (cases "x = a")
    case True
    with ra have "nxt[r := v] ! x = nxt ! x" by simp
    with Cons.IH [OF rx] show ?thesis by simp
  next
    case False
    then show ?thesis by simp
  qed
qed

lemma bucket_rows_Suc:
  "bucket_rows P B (Suc m) b =
     (if P (Suc m) \<and> B (Suc m) = b then Suc m # bucket_rows P B m b else bucket_rows P B m b)"
  by (simp add: bucket_rows_def)

lemma bucket_rows_le: "x \<in> set (bucket_rows P B m b) \<Longrightarrow> x \<le> m"
  by (auto simp add: bucket_rows_def)

lemma link_invI:
  assumes "length F = bsize" and "length N = len"
    and "\<And>b. b < bsize \<Longrightarrow> chain_is N (F ! b) (bucket_rows P B m b)"
    and "\<And>x. x \<in> set F \<Longrightarrow> x = 0 \<or> (P x \<and> x \<le> m)"
    and "\<And>x. x \<in> set N \<Longrightarrow> x = 0 \<or> (P x \<and> x \<le> m)"
  shows "link_inv P B bsize len m (F, N)"
  using assms unfolding link_inv_def by simp

lemma link_invD:
  assumes "link_inv P B bsize len m (F, N)"
  shows "length F = bsize" and "length N = len"
    and "\<And>b. b < bsize \<Longrightarrow> chain_is N (F ! b) (bucket_rows P B m b)"
    and "\<And>x. x \<in> set F \<Longrightarrow> x = 0 \<or> (P x \<and> x \<le> m)"
    and "\<And>x. x \<in> set N \<Longrightarrow> x = 0 \<or> (P x \<and> x \<le> m)"
  using assms unfolding link_inv_def by simp_all

lemma link_inv_skip:
  assumes inv: "link_inv P B bsize len m (F, N)" and np: "\<not> P (Suc m)"
  shows "link_inv P B bsize len (Suc m) (F, N)"
proof (rule link_invI)
  show "length F = bsize" "length N = len" using link_invD(1,2) [OF inv] by simp_all
  show "chain_is N (F ! b) (bucket_rows P B (Suc m) b)" if "b < bsize" for b
    using link_invD(3) [OF inv that] np by (simp add: bucket_rows_Suc)
  show "x = 0 \<or> (P x \<and> x \<le> Suc m)" if "x \<in> set F" for x
    using link_invD(4) [OF inv that] by auto
  show "x = 0 \<or> (P x \<and> x \<le> Suc m)" if "x \<in> set N" for x
    using link_invD(5) [OF inv that] by auto
qed

lemma link_inv_link:
  assumes inv: "link_inv P B bsize len m (F, N)" and p: "P (Suc m)" and b: "B (Suc m) < bsize"
    and l: "Suc m < len"
  shows "link_inv P B bsize len (Suc m) (F[B (Suc m) := Suc m], N[Suc m := F ! B (Suc m)])"
proof -
  let ?r = "Suc m" let ?b0 = "B (Suc m)"
  let ?F = "F[?b0 := ?r]" let ?N = "N[?r := F ! ?b0]"
  note lF = link_invD(1) [OF inv] and lN = link_invD(2) [OF inv]
    and ch = link_invD(3) [OF inv] and vF = link_invD(4) [OF inv] and vN = link_invD(5) [OF inv]
  have notin: "?r \<notin> set (bucket_rows P B m b')" for b'
    using bucket_rows_le [of ?r P B m b'] by auto
  have c: "chain_is ?N (?F ! b') (bucket_rows P B ?r b')" if b': "b' < bsize" for b'
  proof (cases "b' = ?b0")
    case True
    have "chain_is ?N (?N ! ?r) (bucket_rows P B m ?b0)"
      using ch [OF b] notin l lN by (simp add: chain_is_update)
    with True p b lF show ?thesis by (simp add: bucket_rows_Suc)
  next
    case False
    with ch [OF b'] notin show ?thesis
      by (simp add: bucket_rows_Suc chain_is_update)
  qed
  have F0: "F ! ?b0 = 0 \<or> (P (F ! ?b0) \<and> F ! ?b0 \<le> m)"
    using vF [of "F ! ?b0"] b lF by simp
  have wF: "x = 0 \<or> (P x \<and> x \<le> ?r)" if "x \<in> set ?F" for x
  proof -
    from that set_update_subset_insert [of F ?b0 ?r] have "x = ?r \<or> x \<in> set F" by auto
    with vF [of x] p show ?thesis by auto
  qed
  have wN: "x = 0 \<or> (P x \<and> x \<le> ?r)" if "x \<in> set ?N" for x
  proof -
    from that set_update_subset_insert [of N ?r "F ! ?b0"] have "x = F ! ?b0 \<or> x \<in> set N" by auto
    with vN [of x] F0 show ?thesis by auto
  qed
  show ?thesis
  proof (rule link_invI)
    show "length ?F = bsize" "length ?N = len" using lF lN by simp_all
    show "chain_is ?N (?F ! b') (bucket_rows P B ?r b')" if "b' < bsize" for b'
      using c [OF that] .
    show "x = 0 \<or> (P x \<and> x \<le> ?r)" if "x \<in> set ?F" for x using wF [OF that] .
    show "x = 0 \<or> (P x \<and> x \<le> ?r)" if "x \<in> set ?N" for x using wN [OF that] .
  qed
qed

lemma link_rows_nullable_Suc:
  "link_rows_nullable nulls bks start (Suc n) fn =
     (case link_rows_nullable nulls bks start n fn of (F, N) \<Rightarrow>
        if nulls ! n = 0 then (F[bks ! n := start + n], N[start + n := F ! (bks ! n)]) else (F, N))"
  by (simp add: link_rows_nullable_def)

lemma link_rows_nullable_inv:
  assumes inv: "link_inv P B bsize len m fn"
    and nulls: "\<forall>i<count. (nulls ! i = 0) = P (Suc m + i)"
    and bks: "\<forall>i<count. P (Suc m + i) \<longrightarrow> bks ! i = B (Suc m + i)"
    and rng: "\<forall>r. B r < bsize"
    and len: "m + count < len"
  shows "n \<le> count \<Longrightarrow> link_inv P B bsize len (m + n) (link_rows_nullable nulls bks (Suc m) n fn)"
proof (induction n)
  case 0
  with inv show ?case by (simp add: link_rows_nullable_def)
next
  case (Suc n)
  obtain F N where fn: "link_rows_nullable nulls bks (Suc m) n fn = (F, N)"
    by (cases "link_rows_nullable nulls bks (Suc m) n fn")
  from Suc fn have ih: "link_inv P B bsize len (m + n) (F, N)" by simp
  from Suc.prems have n: "n < count" by simp
  show ?case
  proof (cases "nulls ! n = 0")
    case True
    with nulls n have p: "P (Suc (m + n))" by simp
    with bks n have bk: "bks ! n = B (Suc (m + n))" by simp
    from rng have r: "B (Suc (m + n)) < bsize" by simp
    from len n have l: "Suc (m + n) < len" by simp
    from link_inv_link [OF ih p r l] True show ?thesis
      by (simp add: link_rows_nullable_Suc fn bk)
  next
    case False
    with nulls n have p: "\<not> P (Suc (m + n))" by simp
    from link_inv_skip [OF ih p] False show ?thesis
      by (simp add: link_rows_nullable_Suc fn)
  qed
qed

lemma link_rows_as_nullable:
  "link_rows bks start count fn = link_rows_nullable (replicate count 0) bks start count fn"
  unfolding link_rows_def link_rows_nullable_def
  by (rule fold_cong) auto

lemma fold_point_update:
  "n \<le> length ns \<Longrightarrow>
   length (fold (\<lambda>j ns. ns[j := f j (ns ! j)]) [0..<n] ns) = length ns \<and>
   (\<forall>k. fold (\<lambda>j ns. ns[j := f j (ns ! j)]) [0..<n] ns ! k = (if k < n then f k (ns ! k) else ns ! k))"
proof (induction n)
  case 0
  show ?case by simp
next
  case (Suc n)
  let ?r = "fold (\<lambda>j ns. ns[j := f j (ns ! j)]) [0..<n] ns"
  from Suc have l: "length ?r = length ns"
    and v: "\<And>k. ?r ! k = (if k < n then f k (ns ! k) else ns ! k)" by simp_all
  have s: "fold (\<lambda>j ns. ns[j := f j (ns ! j)]) [0..<Suc n] ns = ?r[n := f n (ns ! n)]"
    by (simp add: v)
  have "?r[n := f n (ns ! n)] ! k = (if k < Suc n then f k (ns ! k) else ns ! k)" for k
  proof (cases "k = n")
    case True
    with Suc.prems l show ?thesis by simp
  next
    case False
    then show ?thesis by (simp add: v)
  qed
  with l show ?case unfolding s by simp
qed

lemma or_upto_Suc: "1 \<le> m \<Longrightarrow> or_upto ncs (Suc m) r = or_upto ncs m r OR ncs ! m ! r"
  by (simp add: or_upto_def)

lemma or_upto_zero: "1 \<le> m \<Longrightarrow> (or_upto ncs m r = 0) = (\<forall>i<m. ncs ! i ! r = 0)"
proof (induction m rule: dec_induct)
  case base
  show ?case by (simp add: or_upto_def)
next
  case (step m)
  have "(\<forall>i<Suc m. ncs ! i ! r = 0) = ((\<forall>i<m. ncs ! i ! r = 0) \<and> ncs ! m ! r = 0)"
    by (auto simp add: less_Suc_eq)
  with step show ?case by (simp add: or_upto_Suc or_eq_0_iff)
qed

lemma fill_outer:
  assumes c: "count \<le> length ns"
  shows "1 \<le> m \<Longrightarrow> (\<forall>k<count. ns ! k = ncs ! 0 ! (start + k)) \<Longrightarrow>
    length (fold (\<lambda>i ns. fold (\<lambda>j ns. ns[j := (ns ! j) OR (ncs ! i ! (start + j))]) [0..<count] ns) [1..<m] ns)
      = length ns \<and>
    (\<forall>k<count. fold (\<lambda>i ns. fold (\<lambda>j ns. ns[j := (ns ! j) OR (ncs ! i ! (start + j))]) [0..<count] ns) [1..<m] ns ! k
        = or_upto ncs m (start + k))"
proof (induction m rule: dec_induct)
  case base
  then show ?case by (simp add: or_upto_def)
next
  case (step m)
  let ?r = "fold (\<lambda>i ns. fold (\<lambda>j ns. ns[j := (ns ! j) OR (ncs ! i ! (start + j))]) [0..<count] ns) [1..<m] ns"
  from step have l: "length ?r = length ns" and v: "\<forall>k<count. ?r ! k = or_upto ncs m (start + k)"
    by simp_all
  from c l have c': "count \<le> length ?r" by simp
  have s: "fold (\<lambda>i ns. fold (\<lambda>j ns. ns[j := (ns ! j) OR (ncs ! i ! (start + j))]) [0..<count] ns) [1..<Suc m] ns
      = fold (\<lambda>j ns. ns[j := (ns ! j) OR (ncs ! m ! (start + j))]) [0..<count] ?r"
    using step.hyps by simp
  from fold_point_update [OF c', of "\<lambda>j a. a OR (ncs ! m ! (start + j))"] l v step.hyps
  show ?case unfolding s by (simp add: or_upto_Suc)
qed

lemma fill_is_nulls_zero:
  assumes "ncs \<noteq> []" and "count \<le> length nulls"
  shows "length (fill_is_nulls ncs start count nulls) = length nulls"
    and "i < count \<Longrightarrow> (fill_is_nulls ncs start count nulls ! i = 0) = (\<not> row_is_null ncs (start + i))"
proof -
  let ?n1 = "fold (\<lambda>i ns. ns[i := ncs ! 0 ! (start + i)]) [0..<count] nulls"
  from fold_point_update [OF assms(2), of "\<lambda>j a. ncs ! 0 ! (start + j)"]
  have l1: "length ?n1 = length nulls" and v1: "\<forall>k<count. ?n1 ! k = ncs ! 0 ! (start + k)"
    by simp_all
  from assms(1) have m: "1 \<le> length ncs" by (cases ncs) simp_all
  from assms(2) l1 have c1: "count \<le> length ?n1" by simp
  from fill_outer [OF c1 m v1]
  have l2: "length (fill_is_nulls ncs start count nulls) = length nulls"
    and v2: "\<forall>k<count. fill_is_nulls ncs start count nulls ! k = or_upto ncs (length ncs) (start + k)"
    by (simp_all add: fill_is_nulls_def Let_def l1)
  show "length (fill_is_nulls ncs start count nulls) = length nulls" by (rule l2)
  show "(fill_is_nulls ncs start count nulls ! i = 0) = (\<not> row_is_null ncs (start + i))" if "i < count"
    using v2 that or_upto_zero [OF m, of ncs "start + i"]
    by (simp add: row_is_null_def list_ex_length)
qed

lemma serialize_build_rows_nullable_Suc:
  "serialize_build_rows_nullable c dcs bsize nulls start (Suc n) sb =
     (case serialize_build_rows_nullable c dcs bsize nulls start n sb of (slices, bks) \<Rightarrow>
        if nulls ! n = 0
        then (slices[start + n := get_hash_key c dcs (start + n)],
              bks[n := calc_bucket_num c (slices[start + n := get_hash_key c dcs (start + n)] ! (start + n)) bsize])
        else (slices, bks))"
  by (simp add: serialize_build_rows_nullable_def Let_def split: prod.splits)

lemma serialize_build_rows_nullable_inv:
  assumes "count \<le> length bks" and "start + count \<le> length slices"
  shows "n \<le> count \<Longrightarrow>
     length (fst (serialize_build_rows_nullable c dcs bsize nulls start n (slices, bks))) = length slices \<and>
     length (snd (serialize_build_rows_nullable c dcs bsize nulls start n (slices, bks))) = length bks \<and>
     (\<forall>i<n. nulls ! i = 0 \<longrightarrow>
         snd (serialize_build_rows_nullable c dcs bsize nulls start n (slices, bks)) ! i
           = bucket_of c dcs bsize (start + i))"
proof (induction n)
  case 0
  show ?case by (simp add: serialize_build_rows_nullable_def)
next
  case (Suc n)
  obtain S K where sk: "serialize_build_rows_nullable c dcs bsize nulls start n (slices, bks) = (S, K)"
    by (cases "serialize_build_rows_nullable c dcs bsize nulls start n (slices, bks)")
  from Suc sk have ih: "length S = length slices" "length K = length bks"
    "\<And>i. i < n \<Longrightarrow> nulls ! i = 0 \<Longrightarrow> K ! i = bucket_of c dcs bsize (start + i)"
    by simp_all
  from Suc.prems assms ih have r: "n < length K" "start + n < length S" by simp_all
  show ?case
  proof (cases "nulls ! n = 0")
    case True
    then have s: "serialize_build_rows_nullable c dcs bsize nulls start (Suc n) (slices, bks)
        = (S[start + n := get_hash_key c dcs (start + n)], K[n := bucket_of c dcs bsize (start + n)])"
      using r by (simp add: serialize_build_rows_nullable_Suc sk bucket_of_def)
    show ?thesis unfolding s using ih r
      by (auto simp add: less_Suc_eq nth_list_update)
  next
    case False
    then have s: "serialize_build_rows_nullable c dcs bsize nulls start (Suc n) (slices, bks) = (S, K)"
      by (simp add: serialize_build_rows_nullable_Suc sk)
    show ?thesis unfolding s using ih False
      by (auto simp add: less_Suc_eq)
  qed
qed

lemma serialize_build_rows_as_nullable:
  "serialize_build_rows c dcs bsize start count sb
     = serialize_build_rows_nullable c dcs bsize (replicate count 0) start count sb"
  unfolding serialize_build_rows_def serialize_build_rows_nullable_def
  by (rule fold_cong) auto

lemma build_nullable_columns_inv:
  assumes inv: "build_inv_st c dcs ncs chunk_size m st0 st"
    and ncs: "ncs \<noteq> []"
    and cnt: "count \<le> chunk_size" and len: "m + count \<le> row_count (fst st0)"
    and rng: "\<forall>k. calc_bucket_num c k (bucket_size (fst st0)) < bucket_size (fst st0)"
  shows "build_inv_st c dcs ncs chunk_size (m + count) st0
           (build_nullable_columns c dcs ncs (Suc m) count st)"
proof -
  obtain items ps where st: "st = (items, ps)" by (cases st)
  let ?P = "\<lambda>r. \<not> row_is_null ncs r"
  let ?bs = "bucket_size (fst st0)"
  let ?B = "bucket_of c dcs ?bs"
  let ?nulls = "fill_is_nulls ncs (Suc m) count (is_nulls ps)"
  from inv st have li: "link_inv ?P ?B ?bs (Suc (row_count (fst st0))) m (first items, next items)"
    and bs: "bucket_size items = ?bs" and rc: "row_count items = row_count (fst st0)"
    and ls: "length (build_slice items) = Suc (row_count (fst st0))"
    and lb: "length (buckets ps) = chunk_size" and ln: "length (is_nulls ps) = chunk_size"
    by (simp_all add: build_inv_st_def)
  from cnt ln have cn: "count \<le> length (is_nulls ps)" by simp
  note fz = fill_is_nulls_zero [OF ncs cn, where start = "Suc m"]
  obtain S K where sk: "serialize_build_rows_nullable c dcs ?bs ?nulls (Suc m) count (build_slice items, buckets ps) = (S, K)"
    by (cases "serialize_build_rows_nullable c dcs ?bs ?nulls (Suc m) count (build_slice items, buckets ps)")
  from cnt lb have cb: "count \<le> length (buckets ps)" by simp
  from len ls have cs: "Suc m + count \<le> length (build_slice items)" by simp
  from serialize_build_rows_nullable_inv [OF cb cs, of count c dcs ?bs ?nulls] sk
  have lS: "length S = length (build_slice items)" and lK: "length K = length (buckets ps)"
    and vK: "\<forall>i<count. ?nulls ! i = 0 \<longrightarrow> K ! i = ?B (Suc m + i)"
    by simp_all
  have n1: "\<forall>i<count. (?nulls ! i = 0) = ?P (Suc m + i)" using fz(2) by simp
  have k1: "\<forall>i<count. ?P (Suc m + i) \<longrightarrow> K ! i = ?B (Suc m + i)" using vK n1 by simp
  have r1: "\<forall>r. ?B r < ?bs" using rng by (simp add: bucket_of_def)
  from len have l1: "m + count < Suc (row_count (fst st0))" by simp
  from link_rows_nullable_inv [OF li n1 k1 r1 l1, of count]
  have li': "link_inv ?P ?B ?bs (Suc (row_count (fst st0))) (m + count)
               (link_rows_nullable ?nulls K (Suc m) count (first items, next items))" by simp
  obtain F N where fn: "link_rows_nullable ?nulls K (Suc m) count (first items, next items) = (F, N)"
    by (cases "link_rows_nullable ?nulls K (Suc m) count (first items, next items)")
  have res: "build_nullable_columns c dcs ncs (Suc m) count st
      = (items\<lparr>build_slice := S, first := F, next := N\<rparr>, ps\<lparr>is_nulls := ?nulls, buckets := K\<rparr>)"
    by (simp add: build_nullable_columns_def st Let_def bs sk fn)
  show ?thesis
    unfolding res using li' fn bs rc ls lb ln lS lK fz(1)
    by (simp add: build_inv_st_def)
qed


lemma row_is_null_Nil [simp]: "row_is_null [] r = False"
  by (simp add: row_is_null_def)

lemma build_columns_inv:
  assumes inv: "build_inv_st c dcs [] chunk_size m st0 st"
    and cnt: "count \<le> chunk_size" and len: "m + count \<le> row_count (fst st0)"
    and rng: "\<forall>k. calc_bucket_num c k (bucket_size (fst st0)) < bucket_size (fst st0)"
  shows "build_inv_st c dcs [] chunk_size (m + count) st0 (build_columns c dcs (Suc m) count st)"
proof -
  obtain items ps where st: "st = (items, ps)" by (cases st)
  let ?P = "\<lambda>r. \<not> row_is_null [] r"
  let ?bs = "bucket_size (fst st0)"
  let ?B = "bucket_of c dcs ?bs"
  let ?nulls = "replicate count (0 :: 8 word)"
  from inv st have li: "link_inv ?P ?B ?bs (Suc (row_count (fst st0))) m (first items, next items)"
    and bs: "bucket_size items = ?bs" and rc: "row_count items = row_count (fst st0)"
    and ls: "length (build_slice items) = Suc (row_count (fst st0))"
    and lb: "length (buckets ps) = chunk_size" and ln: "length (is_nulls ps) = chunk_size"
    by (simp_all add: build_inv_st_def)
  obtain S K where sk: "serialize_build_rows_nullable c dcs ?bs ?nulls (Suc m) count (build_slice items, buckets ps) = (S, K)"
    by (cases "serialize_build_rows_nullable c dcs ?bs ?nulls (Suc m) count (build_slice items, buckets ps)")
  from cnt lb have cb: "count \<le> length (buckets ps)" by simp
  from len ls have cs: "Suc m + count \<le> length (build_slice items)" by simp
  from serialize_build_rows_nullable_inv [OF cb cs, of count c dcs ?bs ?nulls] sk
  have lS: "length S = length (build_slice items)" and lK: "length K = length (buckets ps)"
    and vK: "\<forall>i<count. ?nulls ! i = 0 \<longrightarrow> K ! i = ?B (Suc m + i)"
    by simp_all
  have n1: "\<forall>i<count. (?nulls ! i = 0) = ?P (Suc m + i)" by simp
  have k1: "\<forall>i<count. ?P (Suc m + i) \<longrightarrow> K ! i = ?B (Suc m + i)" using vK by simp
  have r1: "\<forall>r. ?B r < ?bs" using rng by (simp add: bucket_of_def)
  from len have l1: "m + count < Suc (row_count (fst st0))" by simp
  from link_rows_nullable_inv [OF li n1 k1 r1 l1, of count]
  have li': "link_inv ?P ?B ?bs (Suc (row_count (fst st0))) (m + count)
               (link_rows_nullable ?nulls K (Suc m) count (first items, next items))" by simp
  obtain F N where fn: "link_rows_nullable ?nulls K (Suc m) count (first items, next items) = (F, N)"
    by (cases "link_rows_nullable ?nulls K (Suc m) count (first items, next items)")
  have res: "build_columns c dcs (Suc m) count st
      = (items\<lparr>build_slice := S, first := F, next := N\<rparr>, ps\<lparr>buckets := K\<rparr>)"
    by (simp add: build_columns_def st bs serialize_build_rows_as_nullable link_rows_as_nullable sk fn)
  show ?thesis
    unfolding res using li' fn bs rc ls lb ln lS lK
    by (simp add: build_inv_st_def)
qed

lemma build_runs_inv:
  assumes step: "\<And>m count st. build_inv_st c dcs ncs chunk_size m st0 st \<Longrightarrow> count \<le> chunk_size \<Longrightarrow>
                   m + count \<le> row_count (fst st0) \<Longrightarrow>
                   build_inv_st c dcs ncs chunk_size (m + count) st0 (run (Suc m) count st)"
    and inv: "build_inv_st c dcs ncs chunk_size 0 st0 st"
  shows "q \<le> row_count (fst st0) div chunk_size \<Longrightarrow>
         build_inv_st c dcs ncs chunk_size (chunk_size * q) st0
           (fold (\<lambda>i. run (1 + chunk_size * i) chunk_size) [0..<q] st)"
proof (induction q)
  case 0
  with inv show ?case by simp
next
  case (Suc q)
  let ?s = "fold (\<lambda>i. run (1 + chunk_size * i) chunk_size) [0..<q] st"
  from Suc have ih: "build_inv_st c dcs ncs chunk_size (chunk_size * q) st0 ?s" by simp
  from Suc.prems have "chunk_size * Suc q \<le> chunk_size * (row_count (fst st0) div chunk_size)"
    by (intro mult_le_mono2)
  also have "\<dots> \<le> row_count (fst st0)" by simp
  finally have le: "chunk_size * q + chunk_size \<le> row_count (fst st0)" by simp
  from step [OF ih le_refl le] show ?case by (simp add: add.commute)
qed

lemma build_all_inv:
  assumes step: "\<And>m count st. build_inv_st c dcs ncs chunk_size m st0 st \<Longrightarrow> count \<le> chunk_size \<Longrightarrow>
                   m + count \<le> row_count (fst st0) \<Longrightarrow>
                   build_inv_st c dcs ncs chunk_size (m + count) st0 (run (Suc m) count st)"
    and inv: "build_inv_st c dcs ncs chunk_size 0 st0 st"
    and cs: "0 < chunk_size"
  shows "build_inv_st c dcs ncs chunk_size (row_count (fst st0)) st0
           (run (1 + chunk_size * (row_count (fst st0) div chunk_size)) (row_count (fst st0) mod chunk_size)
              (fold (\<lambda>i. run (1 + chunk_size * i) chunk_size) [0..<row_count (fst st0) div chunk_size] st))"
proof -
  let ?rc = "row_count (fst st0)"
  let ?q = "?rc div chunk_size" let ?r = "?rc mod chunk_size"
  from build_runs_inv [of c dcs ncs chunk_size st0 run st ?q, OF step inv]
  have a: "build_inv_st c dcs ncs chunk_size (chunk_size * ?q) st0
           (fold (\<lambda>i. run (1 + chunk_size * i) chunk_size) [0..<?q] st)" by simp
  from cs have r: "?r \<le> chunk_size" by (simp add: less_imp_le)
  have e: "chunk_size * ?q + ?r = ?rc" by simp
  from step [OF a r] e show ?thesis by simp
qed


lemma length_resize [simp]: "length (resize xs n v) = n"
  by (simp add: resize_def)

lemma link_inv_init:
  "link_inv P B bsize (Suc rc) 0 (replicate bsize 0, replicate (Suc rc) 0)"
  by (rule link_invI) (auto simp add: bucket_rows_def)

lemma serialized_build_inv:
  assumes cs: "0 < chunk_size"
    and rc: "row_count items + 1 < 2 ^ 32"
    and f0: "first items = replicate (bucket_size items) 0"
    and n0: "next items = replicate (row_count items + 1) 0"
    and rng: "\<forall>k. calc_bucket_num c k (bucket_size items) < bucket_size items"
    and col: "collect_key_columns (join_keys items) (key_columns items) = (dcs, ncs)"
    and al: "allocate c (sum_list (map (max_serialized_size c) dcs))"
  shows "fst (serialized_build c chunk_size (items, ps)) = OK \<and>
         link_inv (\<lambda>r. \<not> row_is_null ncs r) (bucket_of c dcs (bucket_size items))
           (bucket_size items) (Suc (row_count items)) (row_count items)
           (first (fst (snd (serialized_build c chunk_size (items, ps)))),
            next (fst (snd (serialized_build c chunk_size (items, ps)))))"
proof -
  let ?items1 = "items\<lparr>build_slice := resize (build_slice items) ((row_count items + 1) mod 2 ^ 32) []\<rparr>"
  let ?ps1 = "ps\<lparr>buckets := resize (buckets ps) chunk_size 0, is_nulls := resize (is_nulls ps) chunk_size 0\<rparr>"
  let ?st1 = "(?items1, ?ps1)"
  have prep: "SerializedJoinBuildFunc_prepare chunk_size (items, ps) = (OK, ?st1)"
    by (simp add: SerializedJoinBuildFunc_prepare_def)
  from rc have m: "Suc (row_count items) mod 4294967296 = Suc (row_count items)" by simp
  have inv0: "build_inv_st c dcs ncs chunk_size 0 ?st1 ?st1"
    using link_inv_init [of "\<lambda>r. \<not> row_is_null ncs r" "bucket_of c dcs (bucket_size items)" "bucket_size items" "row_count items"]
    by (simp add: build_inv_st_def f0 n0 m)
  have rng1: "\<forall>k. calc_bucket_num c k (bucket_size (fst ?st1)) < bucket_size (fst ?st1)"
    using rng by simp
  have rc1: "row_count (fst ?st1) = row_count items" by simp
  show ?thesis
  proof (cases "ncs = []")
    case True
    have step: "build_inv_st c dcs ncs chunk_size (m + count) ?st1 (build_columns c dcs (Suc m) count st)"
      if "build_inv_st c dcs ncs chunk_size m ?st1 st" "count \<le> chunk_size" "m + count \<le> row_count (fst ?st1)"
      for m count st
      using build_columns_inv [OF _ that(2,3) rng1, of dcs st] that(1) True by simp
    from build_all_inv [of c dcs ncs chunk_size ?st1 "build_columns c dcs" ?st1, OF step inv0 cs]
    have fin: "build_inv_st c dcs ncs chunk_size (row_count items) ?st1
           (build_columns c dcs (1 + chunk_size * (row_count items div chunk_size)) (row_count items mod chunk_size)
              (fold (\<lambda>i. build_columns c dcs (1 + chunk_size * i) chunk_size) [0..<row_count items div chunk_size] ?st1))"
      by simp
    have res: "serialized_build c chunk_size (items, ps) =
        (OK, build_columns c dcs (1 + chunk_size * (row_count items div chunk_size)) (row_count items mod chunk_size)
              (fold (\<lambda>i. build_columns c dcs (1 + chunk_size * i) chunk_size) [0..<row_count items div chunk_size] ?st1))"
      using True al by (simp add: serialized_build_def prep construct_hash_table_def col Let_def)
    show ?thesis unfolding res using fin by (simp add: build_inv_st_def)
  next
    case False
    have step: "build_inv_st c dcs ncs chunk_size (m + count) ?st1 (build_nullable_columns c dcs ncs (Suc m) count st)"
      if "build_inv_st c dcs ncs chunk_size m ?st1 st" "count \<le> chunk_size" "m + count \<le> row_count (fst ?st1)"
      for m count st
      using build_nullable_columns_inv [OF that(1) False that(2,3) rng1] .
    from build_all_inv [of c dcs ncs chunk_size ?st1 "build_nullable_columns c dcs ncs" ?st1, OF step inv0 cs]
    have fin: "build_inv_st c dcs ncs chunk_size (row_count items) ?st1
           (build_nullable_columns c dcs ncs (1 + chunk_size * (row_count items div chunk_size)) (row_count items mod chunk_size)
              (fold (\<lambda>i. build_nullable_columns c dcs ncs (1 + chunk_size * i) chunk_size) [0..<row_count items div chunk_size] ?st1))"
      by simp
    have res: "serialized_build c chunk_size (items, ps) =
        (OK, build_nullable_columns c dcs ncs (1 + chunk_size * (row_count items div chunk_size)) (row_count items mod chunk_size)
              (fold (\<lambda>i. build_nullable_columns c dcs ncs (1 + chunk_size * i) chunk_size) [0..<row_count items div chunk_size] ?st1))"
      using False al by (simp add: serialized_build_def prep construct_hash_table_def col Let_def)
    show ?thesis unfolding res using fin by (simp add: build_inv_st_def)
  qed
qed

text \<open>
  Claim C6. The opaque-bytes build, started on the zeroed \<open>first\<close> and \<open>next\<close> arrays
  that \<^verbatim>\<open>build\<close> allocates, succeeds when the key arena can be allocated, and afterwards
  the chain of every bucket, walked from \<open>first[bucket]\<close> through \<open>next\<close>, is the list
  of the included rows of that bucket in reverse insertion order: the row inserted last is found
  first. A row is included unless a null-indicator column of a key that is not null-safe marks it.
\<close>

theorem chains_in_reverse_insertion_order:
  assumes "0 < chunk_size"
    and "row_count items + 1 < 2 ^ 32"
    and "first items = replicate (bucket_size items) 0"
    and "next items = replicate (row_count items + 1) 0"
    and "\<forall>k. calc_bucket_num c k (bucket_size items) < bucket_size items"
    and "collect_key_columns (join_keys items) (key_columns items) = (dcs, ncs)"
    and "allocate c (sum_list (map (max_serialized_size c) dcs))"
  shows "fst (serialized_build c chunk_size (items, ps)) = OK \<and>
         (\<forall>b<bucket_size items.
            chain_is (next (fst (snd (serialized_build c chunk_size (items, ps)))))
              (first (fst (snd (serialized_build c chunk_size (items, ps)))) ! b)
              (rev (filter (\<lambda>r. \<not> row_is_null ncs r \<and> bucket_of c dcs (bucket_size items) r = b)
                     [1..<Suc (row_count items)])))"
  using serialized_build_inv [OF assms, of ps]
  by (simp add: link_inv_def bucket_rows_def)

lemma upt_2: "[0..<2] = [0, 1]"
  by (simp add: numeral_2_eq_2)

lemma ex_items_fields:
  "first ex_items = [0, 0]" "next ex_items = [0, 0, 0, 0]" "row_count ex_items = 3"
  "bucket_size ex_items = 2" "join_keys ex_items = ex_join_keys"
  "key_columns ex_items = [FixedColumn [0, 7, 8, 7], NullableColumn [0, 1, 2, 1] [0, 0, 1, 0]]"
  by (simp_all add: ex_items_def new_table_items_def)

lemma ex_collect:
  "collect_key_columns (join_keys ex_items) (key_columns ex_items)
     = ([FixedColumn [0, 7, 8, 7], FixedColumn [0, 1, 2, 1]], [[0, 0, 1, 0]])"
  by (simp add: ex_items_fields collect_key_columns_def ex_join_keys_def upt_2)

lemma ex_collab_fields:
  "calc_bucket_num ex_collab k n = sum_list (map unat k) mod n"
  "get_hash_key ex_collab cols r = map (\<lambda>col. word_of_int (cell col r)) cols"
  "allocate ex_collab n"
  "max_serialized_size ex_collab = col_size"
  by (simp_all add: ex_collab_def)

lemma upt_1_4: "[Suc 0..<4] = [Suc 0, 2, 3]"
  by (simp add: upt_rec)

theorem chains_in_reverse_insertion_order_witness:
  "(0::nat) < 2 \<and>
   first ex_items = replicate (bucket_size ex_items) 0 \<and>
   next ex_items = replicate (row_count ex_items + 1) 0 \<and>
   (\<forall>k. calc_bucket_num ex_collab k (bucket_size ex_items) < bucket_size ex_items) \<and>
   fst (serialized_build ex_collab 2 (ex_items, new_probe_state)) = OK \<and>
   chain_is (next (fst (snd (serialized_build ex_collab 2 (ex_items, new_probe_state)))))
     (first (fst (snd (serialized_build ex_collab 2 (ex_items, new_probe_state)))) ! 0) [3, 1]"
proof -
  have 1: "(0::nat) < 2" by simp
  have 2: "row_count ex_items + 1 < 2 ^ 32" by (simp add: ex_items_fields)
  have 3: "first ex_items = replicate (bucket_size ex_items) 0"
    by (simp add: ex_items_fields numeral_2_eq_2)
  have 4: "next ex_items = replicate (row_count ex_items + 1) 0"
    by (simp add: ex_items_fields numeral_3_eq_3)
  have 5: "\<forall>k. calc_bucket_num ex_collab k (bucket_size ex_items) < bucket_size ex_items"
    by (simp add: ex_items_fields ex_collab_fields)
  have 7: "allocate ex_collab (sum_list (map (max_serialized_size ex_collab)
              [FixedColumn [0, 7, 8, 7], FixedColumn [0, 1, 2, 1]]))"
    by (simp add: ex_collab_fields)
  have b: "(0::nat) < bucket_size ex_items" by (simp add: ex_items_fields)
  have r: "rev (filter (\<lambda>r. \<not> row_is_null [[0, 0, 1, 0]] r \<and>
              bucket_of ex_collab [FixedColumn [0, 7, 8, 7], FixedColumn [0, 1, 2, 1]] (bucket_size ex_items) r = 0)
                     [1..<Suc (row_count ex_items)]) = [3, 1]"
    by (simp add: ex_items_fields upt_1_4 row_is_null_def bucket_of_def ex_collab_fields)
  note t = chains_in_reverse_insertion_order [OF 1 2 3 4 5 ex_collect 7, of new_probe_state]
  from t have ok: "fst (serialized_build ex_collab 2 (ex_items, new_probe_state)) = OK" by (rule conjunct1)
  from t [THEN conjunct2, rule_format, OF b]
  have ch: "chain_is (next (fst (snd (serialized_build ex_collab 2 (ex_items, new_probe_state)))))
     (first (fst (snd (serialized_build ex_collab 2 (ex_items, new_probe_state)))) ! 0) [3, 1]"
    by (simp only: r)
  from 1 3 4 5 ok ch show ?thesis by (intro conjI)
qed

section \<open>Rows with a NULL key\<close>














lemma build_columns_keys [simp]:
  "join_keys (fst (build_columns c dcs start count st)) = join_keys (fst st)"
  by (simp add: build_columns_def split: prod.splits)

lemma build_nullable_columns_keys [simp]:
  "join_keys (fst (build_nullable_columns c dcs ncs start count st)) = join_keys (fst st)"
  by (simp add: build_nullable_columns_def Let_def split: prod.splits)

lemma fold_build_columns_keys [simp]:
  "join_keys (fst (fold (\<lambda>i. build_columns c dcs (f i) n) is st)) = join_keys (fst st)"
  by (induction "is" arbitrary: st) simp_all

lemma fold_build_nullable_columns_keys [simp]:
  "join_keys (fst (fold (\<lambda>i. build_nullable_columns c dcs ncs (f i) n) is st)) = join_keys (fst st)"
  by (induction "is" arbitrary: st) simp_all

lemma construct_hash_table_keys [simp]:
  "join_keys (fst (snd (construct_hash_table c n st))) = join_keys (fst st)"
  by (cases st) (simp add: construct_hash_table_def Let_def split: prod.splits)

lemma serialized_build_keys [simp]:
  "join_keys (fst (snd (serialized_build c n st))) = join_keys (fst st)"
  by (auto simp add: serialized_build_def SerializedJoinBuildFunc_prepare_def split: prod.splits)

lemma layout_build_keys [simp]:
  "join_keys (fst (snd (layout_build c ty st))) = join_keys (fst st)"
  by (simp add: layout_build_def split: prod.splits)















end
